theory Spec2Isabelle
  imports Complex_Main
begin

section \<open>Conventions of the embedding\<close>

text \<open>
  The functions of \<^verbatim>\<open>stemtools/nbed/nbed_strain.py\<close> and
  \<^verbatim>\<open>stemtools/eels/eels_tools.py\<close> are translated one by one, under their own names.

  \<^item> A \<^verbatim>\<open>float64\<close> is a \<^typ>\<open>real\<close>: rounding is not modelled, so a statement
    "within floating tolerance" is a statement of exact equality here.
  \<^item> An exception is a value: every function that can raise returns
    \<open>py_error + 'a\<close>, with \<open>Inl\<close> for the exception.
  \<^item> A \<^verbatim>\<open>for ii in range(a, b)\<close> loop is the recursive function \<open>for_range\<close>,
    which threads the loop's variables and stops at the first exception.
  \<^item> The functions of other modules and libraries (the Gaussian peak fitter, the Sobel
    operator, the logarithm scaling, the cross correlation, \<^verbatim>\<open>scipy.ndimage.rotate\<close>,
    \<^verbatim>\<open>scipy.optimize.minimize\<close>, \<^verbatim>\<open>pywt\<close>) are parameters of the functions that call
    them.
\<close>

datatype py_error = IndexError | ValueError | LinAlgError

text \<open>\<^verbatim>\<open>for ii in range(i, n): s = body(ii, s)\<close>\<close>

function for_range :: "nat \<Rightarrow> nat \<Rightarrow> (nat \<Rightarrow> 's \<Rightarrow> py_error + 's) \<Rightarrow> 's \<Rightarrow> py_error + 's" where
  "for_range i n body s =
     (if i < n
      then (case body i s of
              Inl e \<Rightarrow> Inl e
            | Inr s' \<Rightarrow> for_range (Suc i) n body s')
      else Inr s)"
  by pat_completeness auto
termination
  by (relation "measure (\<lambda>(i, n, body, s). n - i)") auto

declare for_range.simps [simp del]

text \<open>\<^verbatim>\<open>xs[i]\<close> for a Python integer \<open>i\<close>: a negative index counts from the end.\<close>

definition py_index :: "'a list \<Rightarrow> int \<Rightarrow> py_error + 'a" where
  "py_index xs i =
     (if 0 \<le> i \<and> i < int (length xs) then Inr (xs ! nat i)
      else if i < 0 \<and> - int (length xs) \<le> i then Inr (xs ! nat (int (length xs) + i))
      else Inl IndexError)"

text \<open>\<^verbatim>\<open>np.amax(xs)\<close> of a one-dimensional array: the empty array raises.\<close>

definition np_amax :: "real list \<Rightarrow> py_error + real" where
  "np_amax xs = (case xs of [] \<Rightarrow> Inl ValueError | x # ys \<Rightarrow> Inr (fold max ys x))"

text \<open>\<^verbatim>\<open>np.amin(xs)\<close> likewise.\<close>

definition np_amin :: "real list \<Rightarrow> py_error + real" where
  "np_amin xs = (case xs of [] \<Rightarrow> Inl ValueError | x # ys \<Rightarrow> Inr (fold min ys x))"

section \<open>EELS: wavelet cleaning\<close>

text \<open>
  The functions of \<^verbatim>\<open>pywt\<close> that \<^verbatim>\<open>cleanEELS_wavelet\<close> calls, for the wavelet
  \<^verbatim>\<open>sym4\<close>: \<^verbatim>\<open>dwt_max_level(len, dec_len)\<close>, \<^verbatim>\<open>wavedec(data, level)\<close>,
  \<^verbatim>\<open>threshold(coefficients, value)\<close> and \<^verbatim>\<open>waverec(coefficients)\<close>.
\<close>

record pywt =
  dwt_max_level :: "nat \<Rightarrow> nat"
  wavedec :: "real list \<Rightarrow> nat \<Rightarrow> py_error + real list list"
  pywt_threshold :: "real list \<Rightarrow> real \<Rightarrow> real list"
  waverec :: "real list list \<Rightarrow> py_error + real list"

text \<open>
  The body of the loop \<^verbatim>\<open>for ii in numba.prange(1, len(coeffs))\<close>:
  \<^verbatim>\<open>coeffs2[ii] = pywt.threshold(coeffs[ii], threshold*np.amax(coeffs[ii]))\<close>,
  where \<^verbatim>\<open>coeffs2\<close> is the list \<^verbatim>\<open>coeffs\<close> itself.
\<close>

definition clean_step :: "pywt \<Rightarrow> real \<Rightarrow> nat \<Rightarrow> real list list \<Rightarrow> py_error + real list list" where
  "clean_step lib threshold ii coeffs =
     (case np_amax (coeffs ! ii) of
        Inl e \<Rightarrow> Inl e
      | Inr peak \<Rightarrow> Inr (coeffs[ii := pywt_threshold lib (coeffs ! ii) (threshold * peak)]))"

definition cleanEELS_wavelet :: "pywt \<Rightarrow> real list \<Rightarrow> real \<Rightarrow> py_error + real list" where
  "cleanEELS_wavelet lib data threshold =
     (let max_level = dwt_max_level lib (length data) in
      case wavedec lib data max_level of
        Inl e \<Rightarrow> Inl e
      | Inr coeffs \<Rightarrow>
          (let threshold = 1 / 10 in
           case for_range 1 (length coeffs) (clean_step lib threshold) coeffs of
             Inl e \<Rightarrow> Inl e
           | Inr coeffs2 \<Rightarrow> waverec lib coeffs2))"

section \<open>NBED: the resampler\<close>

text \<open>
  The inner loop of \<^verbatim>\<open>resizer\<close>:
  \<^verbatim>\<open>while m*N - n*M < M: data_sum += data[m]; m += 1\<close>.
  The index \<open>m\<close> starts at 0 and only grows, so \<^verbatim>\<open>data[m]\<close> raises exactly when
  \<open>m\<close> has reached the length of the array.
\<close>

function resizer_while :: "real list \<Rightarrow> int \<Rightarrow> nat \<Rightarrow> nat \<Rightarrow> real \<Rightarrow> py_error + (nat \<times> real)" where
  "resizer_while data N n m data_sum =
     (if int m * N - int n * int (length data) < int (length data)
      then (if m < length data
            then resizer_while data N n (Suc m) (data_sum + data ! m)
            else Inl IndexError)
      else Inr (m, data_sum))"
  by pat_completeness auto
termination
  by (relation "measure (\<lambda>(data, N, n, m, data_sum). length data - m)") auto

declare resizer_while.simps [simp del]

text \<open>
  One turn of \<^verbatim>\<open>for n in range(int(N))\<close>, on the loop's variables
  \<open>(m, carry, res)\<close>.
\<close>

definition resizer_body :: "real list \<Rightarrow> int \<Rightarrow> nat \<Rightarrow> nat \<times> real \<times> real list \<Rightarrow> py_error + (nat \<times> real \<times> real list)" where
  "resizer_body data N n st =
     (case st of (m, carry, res) \<Rightarrow>
        (case resizer_while data N n m carry of
           Inl e \<Rightarrow> Inl e
         | Inr (m', data_sum) \<Rightarrow>
             (case py_index data (int m' - 1) of
                Inl e \<Rightarrow> Inl e
              | Inr d \<Rightarrow>
                  (let M = length data;
                       carry' = (real m' - real (n + 1) * real M / real_of_int N) * d;
                       data_sum' = data_sum - carry'
                   in Inr (m', carry', res[n := data_sum' * real_of_int N / real M])))))"

text \<open>\<^verbatim>\<open>np.zeros(int(N))\<close> raises for a negative length.\<close>

definition resizer :: "real list \<Rightarrow> int \<Rightarrow> py_error + real list" where
  "resizer data N =
     (if N < 0 then Inl ValueError
      else (case for_range 0 (nat N) (resizer_body data N) (0, 0, replicate (nat N) 0) of
              Inl e \<Rightarrow> Inl e
            | Inr (m, carry, res) \<Rightarrow> Inr res))"


section \<open>Loop invariants of the resampler\<close>

text \<open>
  Before turn \<open>k\<close> of the outer loop of \<^verbatim>\<open>resizer\<close>: the bins from \<open>k\<close> on are still
  zero, the input has been read up to \<open>m\<close> with \<open>k * M \<le> m * N\<close>, and the bins filled so
  far hold the intensity read so far but for the part carried to the next bin.
\<close>

definition resizer_inv :: "real list \<Rightarrow> int \<Rightarrow> nat \<Rightarrow> nat \<times> real \<times> real list \<Rightarrow> bool" where
  "resizer_inv data N k st =
     (case st of (m, carry, res) \<Rightarrow>
        length res = nat N \<and> m \<le> length data
        \<and> int k * int (length data) \<le> int m * N
        \<and> (\<forall>j. k \<le> j \<and> j < nat N \<longrightarrow> res ! j = 0)
        \<and> sum_list res * real (length data) / real_of_int N = sum_list (take m data) - carry
        \<and> (\<exists>d. carry = (real m - real k * real (length data) / real_of_int N) * d))"

text \<open>The same loop when the new length is the old one: bin \<open>k\<close> is sample \<open>k\<close>.\<close>

definition resizer_same_inv :: "real list \<Rightarrow> nat \<Rightarrow> nat \<times> real \<times> real list \<Rightarrow> bool" where
  "resizer_same_inv data k st =
     (case st of (m, carry, res) \<Rightarrow>
        m = k \<and> carry = 0 \<and> length res = length data \<and> take k res = take k data)"


section \<open>NBED: scattering the values of a region of interest\<close>

text \<open>
  A two-dimensional array is the list of its rows. \<^verbatim>\<open>np.zeros_like(ROI)\<close> has the shape
  of \<^verbatim>\<open>ROI\<close>; \<^verbatim>\<open>a[mask] = values\<close> writes the values, in order, to the positions
  where the mask is true, row by row (positions for which no value is left keep their
  content); \<^verbatim>\<open>a[mask]\<close> reads these positions in the same order.
\<close>


definition np_zeros_like :: "'a list list \<Rightarrow> real list list" where
  "np_zeros_like a = map (map (\<lambda>_. 0)) a"

definition count_nonzero :: "bool list list \<Rightarrow> nat" where
  "count_nonzero roi = sum_list (map (\<lambda>row. length (filter id row)) roi)"

fun mask_assign_row :: "real list \<Rightarrow> bool list \<Rightarrow> real list \<Rightarrow> real list" where
  "mask_assign_row (x # xs) (b # bs) vs =
     (if b then (case vs of v # vs' \<Rightarrow> v # mask_assign_row xs bs vs'
                 | [] \<Rightarrow> x # mask_assign_row xs bs [])
      else x # mask_assign_row xs bs vs)"
| "mask_assign_row xs bs vs = xs"

fun mask_assign :: "real list list \<Rightarrow> bool list list \<Rightarrow> real list \<Rightarrow> real list list" where
  "mask_assign (xs # xss) (bs # bss) vs =
     mask_assign_row xs bs vs # mask_assign xss bss (drop (length (filter id bs)) vs)"
| "mask_assign xss bss vs = xss"

definition mask_select_row :: "real list \<Rightarrow> bool list \<Rightarrow> real list" where
  "mask_select_row xs bs = map fst (filter snd (zip xs bs))"

definition mask_select :: "real list list \<Rightarrow> bool list list \<Rightarrow> real list" where
  "mask_select xss bss = concat (map (\<lambda>(xs, bs). mask_select_row xs bs) (zip xss bss))"

text \<open>
  \<^verbatim>\<open>strain_map[ROI] = strain_ROI\<close> takes as many values as the mask has true pixels,
  or one value for all of them, and raises otherwise.
\<close>

definition ROI_strain_map :: "real list \<Rightarrow> bool list list \<Rightarrow> py_error + real list list" where
  "ROI_strain_map strain_ROI ROI =
     (let strain_map = np_zeros_like ROI; k = count_nonzero ROI in
      if length strain_ROI = k then Inr (mask_assign strain_map ROI strain_ROI)
      else (case strain_ROI of
              [v] \<Rightarrow> Inr (mask_assign strain_map ROI (replicate k v))
            | _ \<Rightarrow> Inl ValueError))"

section \<open>NBED: lattice fit and strain\<close>

text \<open>
  An image is the list of its rows; a position, a disk index and a row of an
  \<open>N \<times> 2\<close> array are pairs; a \<open>2 \<times> 2\<close> array is a \<open>mat2\<close>, with \<open>m01 a\<close> for
  \<^verbatim>\<open>a[0,1]\<close>.
\<close>

type_synonym image = "real list list"

type_synonym point = "real \<times> real"

datatype mat2 = Mat2 (m00: real) (m01: real) (m10: real) (m11: real)

text \<open>\<^verbatim>\<open>np.matmul\<close>, the difference, \<^verbatim>\<open>np.eye(2)\<close> and the determinant of \<open>2 \<times> 2\<close> arrays.\<close>

definition np_matmul :: "mat2 \<Rightarrow> mat2 \<Rightarrow> mat2" where
  "np_matmul a b =
     Mat2 (m00 a * m00 b + m01 a * m10 b) (m00 a * m01 b + m01 a * m11 b)
          (m10 a * m00 b + m11 a * m10 b) (m10 a * m01 b + m11 a * m11 b)"

definition mat_sub :: "mat2 \<Rightarrow> mat2 \<Rightarrow> mat2" where
  "mat_sub a b = Mat2 (m00 a - m00 b) (m01 a - m01 b) (m10 a - m10 b) (m11 a - m11 b)"

definition mat_scale :: "real \<Rightarrow> mat2 \<Rightarrow> mat2" where
  "mat_scale c a = Mat2 (c * m00 a) (c * m01 a) (c * m10 a) (c * m11 a)"

definition np_eye2 :: mat2 where
  "np_eye2 = Mat2 1 0 0 1"

definition mat_det :: "mat2 \<Rightarrow> real" where
  "mat_det a = m00 a * m11 a - m01 a * m10 a"

text \<open>
  \<^verbatim>\<open>np.linalg.inv\<close>: the inverse by the adjugate, and \<^verbatim>\<open>LinAlgError\<close> for a singular
  matrix.
\<close>

definition mat_inverse :: "mat2 \<Rightarrow> mat2" where
  "mat_inverse a = Mat2 (m11 a / mat_det a) (- m01 a / mat_det a)
                        (- m10 a / mat_det a) (m00 a / mat_det a)"

definition np_linalg_inv :: "mat2 \<Rightarrow> py_error + mat2" where
  "np_linalg_inv a = (if mat_det a = 0 then Inl LinAlgError else Inr (mat_inverse a))"

text \<open>
  \<^verbatim>\<open>np.linalg.lstsq(a, b, rcond=None)[0]\<close> for arrays \<open>a\<close> and \<open>b\<close> of two columns: the
  least-squares solution of minimal norm, \<open>pinv(a) b\<close>, which over the reals is
  \<open>pinv(g) c\<close> for \<open>g\<close> the product of the transpose of \<open>a\<close> with \<open>a\<close> (\<open>gram a\<close>) and
  \<open>c\<close> the product of the transpose of \<open>a\<close> with \<open>b\<close> (\<open>moments a b\<close>). The
  pseudo-inverse of the symmetric matrix \<open>g\<close> is its inverse when its determinant is
  not zero, \<open>g\<close> divided by the square of its trace when \<open>g\<close> has rank one, and zero when
  \<open>g\<close> is zero. The rank is decided exactly here; numpy decides it on the singular
  values, up to rounding. Arrays with different numbers of rows raise.
\<close>

definition gram :: "point list \<Rightarrow> mat2" where
  "gram a = Mat2 (\<Sum>p\<leftarrow>a. fst p * fst p) (\<Sum>p\<leftarrow>a. fst p * snd p)
                 (\<Sum>p\<leftarrow>a. snd p * fst p) (\<Sum>p\<leftarrow>a. snd p * snd p)"

definition moments :: "point list \<Rightarrow> point list \<Rightarrow> mat2" where
  "moments a b =
     Mat2 (\<Sum>r\<leftarrow>zip a b. fst (fst r) * fst (snd r)) (\<Sum>r\<leftarrow>zip a b. fst (fst r) * snd (snd r))
          (\<Sum>r\<leftarrow>zip a b. snd (fst r) * fst (snd r)) (\<Sum>r\<leftarrow>zip a b. snd (fst r) * snd (snd r))"

definition np_lstsq :: "point list \<Rightarrow> point list \<Rightarrow> py_error + mat2" where
  "np_lstsq a b =
     (if length a \<noteq> length b then Inl LinAlgError
      else (let g = gram a; c = moments a b; t = m00 g + m11 g in
            if mat_det g \<noteq> 0 then Inr (np_matmul (mat_inverse g) c)
            else if t \<noteq> 0 then Inr (np_matmul (mat_scale (1 / (t * t)) g) c)
            else Inr (Mat2 0 0 0 0)))"

text \<open>The sum of the squared entries of \<open>a x - b\<close>, which \<^verbatim>\<open>lstsq\<close> minimises.\<close>

definition residual :: "point list \<Rightarrow> mat2 \<Rightarrow> point list \<Rightarrow> real" where
  "residual a x b =
     (\<Sum>r\<leftarrow>zip a b. (fst (fst r) * m00 x + snd (fst r) * m10 x - fst (snd r))\<^sup>2
                   + (fst (fst r) * m01 x + snd (fst r) * m11 x - snd (snd r))\<^sup>2)"

text \<open>One column of \<open>pinv(g) c\<close>, for the column \<open>(cx, ex)\<close> of \<open>c\<close>.\<close>

definition solve_column :: "mat2 \<Rightarrow> real \<Rightarrow> real \<Rightarrow> real \<times> real" where
  "solve_column g cx ex =
     (let t = m00 g + m11 g in
      if mat_det g \<noteq> 0
      then (m00 (mat_inverse g) * cx + m01 (mat_inverse g) * ex,
            m10 (mat_inverse g) * cx + m11 (mat_inverse g) * ex)
      else if t \<noteq> 0
      then (1 / (t * t) * m00 g * cx + 1 / (t * t) * m01 g * ex,
            1 / (t * t) * m10 g * cx + 1 / (t * t) * m11 g * ex)
      else (0, 0))"

text \<open>
  The functions of the other modules of the package: \<^verbatim>\<open>gt.fit_gaussian2D_mask(image, x,
  y, radius)\<close>, of which the first two results are used, \<^verbatim>\<open>sc.sobel(image)\<close>, which
  returns the edge image and the gradient direction, \<^verbatim>\<open>iu.image_logarizer(image)\<close>
  and \<^verbatim>\<open>iu.cross_corr(image, template, hybridizer)\<close>.
\<close>

record nbed_lib =
  fit_gaussian2D_mask :: "image \<Rightarrow> real \<Rightarrow> real \<Rightarrow> real \<Rightarrow> point"
  sobel :: "image \<Rightarrow> image \<times> image"
  image_logarizer :: "image \<Rightarrow> image"
  cross_corr :: "image \<Rightarrow> image \<Rightarrow> real \<Rightarrow> image"

text \<open>
  \<^verbatim>\<open>fit_nbed_disks\<close>. An empty list of positions is a one-dimensional array, on which
  \<^verbatim>\<open>disk_locations[:,1]\<close> raises; a boolean index of another length raises; and
  \<^verbatim>\<open>center[0,0]\<close> raises when no disk has the index (0,0). With several such disks the
  first one is the centre.
\<close>

definition fit_nbed_disks ::
  "nbed_lib \<Rightarrow> image \<Rightarrow> real \<Rightarrow> point list \<Rightarrow> point list \<Rightarrow> py_error + (point list \<times> point \<times> mat2)" where
  "fit_nbed_disks lib corr_image disk_size positions diff_spots =
     (let fitted_disk_list =
            map (\<lambda>pos. fit_gaussian2D_mask lib corr_image (fst pos) (snd pos) disk_size) positions;
          disk_locations = map (\<lambda>d. (fst d, 0 - snd d)) fitted_disk_list
      in if positions = [] \<or> length diff_spots \<noteq> length positions then Inl IndexError
         else (case map fst (filter (\<lambda>r. fst (snd r) = 0 \<and> snd (snd r) = 0)
                                (zip disk_locations diff_spots)) of
                 [] \<Rightarrow> Inl IndexError
               | center # others \<Rightarrow>
                   (let cx = fst center; cy = snd center;
                        disk_locations = map (\<lambda>d. (fst d - cx, snd d - cy)) disk_locations
                    in case np_lstsq diff_spots disk_locations of
                         Inl e \<Rightarrow> Inl e
                       | Inr lcbed \<Rightarrow> Inr (fitted_disk_list, (cx, (- 1) * cy), lcbed))))"

text \<open>
  An instance of these functions, for the examples: the fitter moves a position by
  \<open>(1/2, -1/4)\<close>, the edge operator and the logarithm return their image, and the cross
  correlation returns its first image.
\<close>

definition demo_lib :: nbed_lib where
  "demo_lib = \<lparr> fit_gaussian2D_mask = (\<lambda>img x y r. (x + 1 / 2, y - 1 / 4)),
                sobel = (\<lambda>img. (img, img)), image_logarizer = (\<lambda>img. img),
                cross_corr = (\<lambda>a b h. a) \<rparr>"

section \<open>NBED: strain in a region of interest\<close>

text \<open>
  The stack \<^verbatim>\<open>data4D_ROI\<close> of shape \<open>[ky, kx, N]\<close>: \<open>pixels\<close> holds, for each row and
  column of the patterns, the \<open>N\<close> values of that pixel, and \<open>depth\<close> is
  \<^verbatim>\<open>data4D_ROI.shape[-1]\<close>. \<^verbatim>\<open>np.mean(data4D_ROI, axis=-1)\<close> is the mean pattern (for
  \<open>N = 0\<close> numpy gives \<^verbatim>\<open>nan\<close>, the model 0) and \<^verbatim>\<open>data4D_ROI[:,:,ii]\<close> is pattern
  \<open>ii\<close>.
\<close>

record roi_stack =
  depth :: nat
  pixels :: "real list list list"

definition np_mean_last :: "roi_stack \<Rightarrow> image" where
  "np_mean_last data = map (map (\<lambda>v. sum_list v / real (length v))) (pixels data)"

definition pattern_at :: "roi_stack \<Rightarrow> nat \<Rightarrow> image" where
  "pattern_at data ii = map (map (\<lambda>v. v ! ii)) (pixels data)"

text \<open>
  \<^verbatim>\<open>np.median\<close> of an image (the middle of its sorted values, or the mean of the two
  middle ones), and the clamp
  \<^verbatim>\<open>img[img > med_factor*np.median(img)] = np.median(img)\<close>.
\<close>

definition np_median :: "image \<Rightarrow> real" where
  "np_median img =
     (let xs = sort (concat img); n = length xs in
      if n = 0 then 0
      else if odd n then xs ! (n div 2)
      else (xs ! (n div 2 - 1) + xs ! (n div 2)) / 2)"

definition clamp_outliers :: "real \<Rightarrow> image \<Rightarrow> image" where
  "clamp_outliers med_factor img =
     map (map (\<lambda>v. if v > med_factor * np_median img then np_median img else v)) img"

text \<open>\<^verbatim>\<open>disk_size = (np.sum(center_disk)/np.pi) ** 0.5\<close>\<close>

definition disk_radius :: "image \<Rightarrow> real" where
  "disk_radius center_disk = sqrt (sum_list (concat center_disk) / pi)"

text \<open>
  The lattice basis of one image in \<^verbatim>\<open>strain_in_ROI\<close> (the same four lines for the
  mean pattern and for each pattern): logarithm, edge detection, clamp, cross correlation
  with the edge image of the centre disk at hybridizer 0.1, and the third result of
  \<^verbatim>\<open>fit_nbed_disks\<close>. \<^verbatim>\<open>strain_oldstyle\<close> cross-correlates the image itself with the
  centre disk.
\<close>

definition edge_axes ::
  "nbed_lib \<Rightarrow> image \<Rightarrow> real \<Rightarrow> point list \<Rightarrow> point list \<Rightarrow> real \<Rightarrow> image \<Rightarrow> py_error + mat2" where
  "edge_axes lib sobel_center_disk disk_size disk_list pos_list med_factor pattern =
     (let sobel_log_pattern = fst (sobel lib (image_logarizer lib pattern));
          sobel_log_pattern = clamp_outliers med_factor sobel_log_pattern;
          lsc_pattern = cross_corr lib sobel_log_pattern sobel_center_disk (1 / 10)
      in case fit_nbed_disks lib lsc_pattern disk_size disk_list pos_list of
           Inl e \<Rightarrow> Inl e
         | Inr (fitted, centre, pattern_axes) \<Rightarrow> Inr pattern_axes)"

definition plain_axes ::
  "nbed_lib \<Rightarrow> image \<Rightarrow> real \<Rightarrow> point list \<Rightarrow> point list \<Rightarrow> image \<Rightarrow> py_error + mat2" where
  "plain_axes lib center_disk disk_size disk_list pos_list pattern =
     (let cc_pattern = cross_corr lib pattern center_disk (1 / 10)
      in case fit_nbed_disks lib cc_pattern disk_size disk_list pos_list of
           Inl e \<Rightarrow> Inl e
         | Inr (fitted, centre, pattern_axes) \<Rightarrow> Inr pattern_axes)"

text \<open>
  The arrays \<open>(e_xx_ROI, e_xy_ROI, e_th_ROI, e_yy_ROI)\<close>, and the six lines that end a
  turn of the loop over the patterns, the same in both functions.
\<close>

type_synonym strain_arrays = "real list \<times> real list \<times> real list \<times> real list"

definition strain_store :: "mat2 \<Rightarrow> mat2 \<Rightarrow> nat \<Rightarrow> strain_arrays \<Rightarrow> strain_arrays" where
  "strain_store pattern_axes inverse_axes ii st =
     (case st of (e_xx_ROI, e_xy_ROI, e_th_ROI, e_yy_ROI) \<Rightarrow>
        (let t_pattern = np_matmul pattern_axes inverse_axes;
             s_pattern = mat_sub t_pattern np_eye2
         in (e_xx_ROI[ii := - m00 s_pattern],
             e_xy_ROI[ii := - (m01 s_pattern + m10 s_pattern)],
             e_th_ROI[ii := m01 s_pattern - m10 s_pattern],
             e_yy_ROI[ii := - m11 s_pattern])))"

text \<open>
  \<^verbatim>\<open>strain_in_ROI\<close> and \<^verbatim>\<open>strain_oldstyle\<close>. The default \<^verbatim>\<open>reference_axes=0\<close>, of
  size less than 2, is \<open>None\<close>; a supplied \<open>2 \<times> 2\<close> basis is \<open>Some axes\<close>.
\<close>

definition strain_in_ROI ::
  "nbed_lib \<Rightarrow> roi_stack \<Rightarrow> image \<Rightarrow> point list \<Rightarrow> point list \<Rightarrow> mat2 option \<Rightarrow> real
   \<Rightarrow> py_error + strain_arrays" where
  "strain_in_ROI lib data4D_ROI center_disk disk_list pos_list reference_axes med_factor =
     (let no_of_disks = depth data4D_ROI;
          disk_size = disk_radius center_disk;
          sobel_center_disk = fst (sobel lib center_disk);
          zeros = replicate no_of_disks 0
      in case (case reference_axes of
                 None \<Rightarrow>
                   (case edge_axes lib sobel_center_disk disk_size disk_list pos_list med_factor
                           (np_mean_last data4D_ROI) of
                      Inl e \<Rightarrow> Inl e
                    | Inr mean_axes \<Rightarrow> np_linalg_inv mean_axes)
               | Some axes \<Rightarrow> np_linalg_inv axes) of
           Inl e \<Rightarrow> Inl e
         | Inr inverse_axes \<Rightarrow>
             for_range 0 no_of_disks
               (\<lambda>ii st.
                  case edge_axes lib sobel_center_disk disk_size disk_list pos_list med_factor
                         (pattern_at data4D_ROI ii) of
                    Inl e \<Rightarrow> Inl e
                  | Inr pattern_axes \<Rightarrow> Inr (strain_store pattern_axes inverse_axes ii st))
               (zeros, zeros, zeros, zeros))"

definition strain_oldstyle ::
  "nbed_lib \<Rightarrow> roi_stack \<Rightarrow> image \<Rightarrow> point list \<Rightarrow> point list \<Rightarrow> mat2 option
   \<Rightarrow> py_error + strain_arrays" where
  "strain_oldstyle lib data4D_ROI center_disk disk_list pos_list reference_axes =
     (let no_of_disks = depth data4D_ROI;
          disk_size = disk_radius center_disk;
          zeros = replicate no_of_disks 0
      in case (case reference_axes of
                 None \<Rightarrow>
                   (case plain_axes lib center_disk disk_size disk_list pos_list
                           (np_mean_last data4D_ROI) of
                      Inl e \<Rightarrow> Inl e
                    | Inr mean_axes \<Rightarrow> np_linalg_inv mean_axes)
               | Some axes \<Rightarrow> np_linalg_inv axes) of
           Inl e \<Rightarrow> Inl e
         | Inr inverse_axes \<Rightarrow>
             for_range 0 no_of_disks
               (\<lambda>ii st.
                  case plain_axes lib center_disk disk_size disk_list pos_list
                         (pattern_at data4D_ROI ii) of
                    Inl e \<Rightarrow> Inl e
                  | Inr pattern_axes \<Rightarrow> Inr (strain_store pattern_axes inverse_axes ii st))
               (zeros, zeros, zeros, zeros))"

text \<open>A stack of two patterns of two rows and two columns, for the examples.\<close>

definition demo_stack :: roi_stack where
  "demo_stack = \<lparr> depth = 2, pixels = [[[1, 3], [2, 2]], [[0, 4], [5, 1]]] \<rparr>"

text \<open>
  The four strain components of one pattern as a tuple, and the state of the loop over
  the patterns before turn \<open>k\<close>: the first \<open>k\<close> entries of each array are set, the others
  are still zero.
\<close>

definition strain_row :: "mat2 \<Rightarrow> mat2 \<Rightarrow> real \<times> real \<times> real \<times> real" where
  "strain_row pattern_axes inverse_axes =
     (let s = mat_sub (np_matmul pattern_axes inverse_axes) np_eye2
      in (- m00 s, - (m01 s + m10 s), m01 s - m10 s, - m11 s))"

definition strain_inv :: "nat \<Rightarrow> (nat \<Rightarrow> mat2) \<Rightarrow> mat2 \<Rightarrow> nat \<Rightarrow> strain_arrays \<Rightarrow> bool" where
  "strain_inv n A inverse_axes k st =
     (case st of (e_xx, e_xy, e_th, e_yy) \<Rightarrow>
        e_xx = map (\<lambda>ii. fst (strain_row (A ii) inverse_axes)) [0..<k] @ replicate (n - k) 0
      \<and> e_xy = map (\<lambda>ii. fst (snd (strain_row (A ii) inverse_axes))) [0..<k] @ replicate (n - k) 0
      \<and> e_th = map (\<lambda>ii. fst (snd (snd (strain_row (A ii) inverse_axes)))) [0..<k] @ replicate (n - k) 0
      \<and> e_yy = map (\<lambda>ii. snd (snd (snd (strain_row (A ii) inverse_axes)))) [0..<k] @ replicate (n - k) 0)"

text \<open>
  The strain formulas as the specification words them: with \<open>T\<close> the product of the
  pattern's basis and the inverse of the reference basis and \<open>S = T - I\<close>, entry \<open>ii\<close> of
  the four arrays is \<open>-S[0,0]\<close>, \<open>-(S[0,1] + S[1,0])\<close>, \<open>S[0,1] - S[1,0]\<close> and
  \<open>-S[1,1]\<close>.
\<close>

definition strain_emitted ::
  "nat \<Rightarrow> (nat \<Rightarrow> mat2) \<Rightarrow> mat2 \<Rightarrow> strain_arrays \<Rightarrow> bool" where
  "strain_emitted n pattern_axes inverse_reference e =
     (case e of (e_xx, e_xy, e_theta, e_yy) \<Rightarrow>
        length e_xx = n \<and> length e_xy = n \<and> length e_theta = n \<and> length e_yy = n
      \<and> (\<forall>ii<n. let T = np_matmul (pattern_axes ii) inverse_reference;
                     S = mat_sub T np_eye2
                 in e_xx ! ii = - m00 S
                  \<and> e_xy ! ii = - (m01 S + m10 S)
                  \<and> e_theta ! ii = m01 S - m10 S
                  \<and> e_yy ! ii = - m11 S))"

text \<open>
  The extractor as the specification describes it, with its three preprocessing stages
  as parameters: \<open>log_stage\<close> is the log-intensity scaling, \<open>edge_stage\<close> the edge
  detection (of every pattern and of the centre disk) and \<open>clamp_stage\<close> the outlier
  clamp. An image is scaled, edge-detected and clamped, cross-correlated at hybridizer
  0.1 with the edge-detected centre disk, and handed to the disk locator with the radius
  \<open>sqrt(sum(mask)/\<pi>)\<close>. The reference frame is the inverse of the basis of the mean
  pattern, or of the supplied basis, and every pattern stores its four strain components.
\<close>

definition located_axes ::
  "(image \<Rightarrow> image) \<Rightarrow> (image \<Rightarrow> image) \<Rightarrow> (image \<Rightarrow> image) \<Rightarrow> nbed_lib \<Rightarrow> image
   \<Rightarrow> point list \<Rightarrow> point list \<Rightarrow> image \<Rightarrow> py_error + mat2" where
  "located_axes log_stage edge_stage clamp_stage lib center_disk disk_list pos_list pattern =
     (case fit_nbed_disks lib
             (cross_corr lib (clamp_stage (edge_stage (log_stage pattern)))
                (edge_stage center_disk) (1 / 10))
             (sqrt (sum_list (concat center_disk) / pi)) disk_list pos_list of
        Inl e \<Rightarrow> Inl e
      | Inr (fitted, centre, axes) \<Rightarrow> Inr axes)"

definition strain_staged ::
  "(image \<Rightarrow> image) \<Rightarrow> (image \<Rightarrow> image) \<Rightarrow> (image \<Rightarrow> image) \<Rightarrow> nbed_lib \<Rightarrow> roi_stack
   \<Rightarrow> image \<Rightarrow> point list \<Rightarrow> point list \<Rightarrow> mat2 option \<Rightarrow> py_error + strain_arrays" where
  "strain_staged log_stage edge_stage clamp_stage lib data center_disk disk_list pos_list
     reference_axes =
     (let axes_of = located_axes log_stage edge_stage clamp_stage lib center_disk disk_list
                      pos_list;
          n = depth data
      in case (case reference_axes of
                 None \<Rightarrow> axes_of (np_mean_last data)
               | Some axes \<Rightarrow> Inr axes) of
           Inl e \<Rightarrow> Inl e
         | Inr reference \<Rightarrow>
             (case np_linalg_inv reference of
                Inl e \<Rightarrow> Inl e
              | Inr frame \<Rightarrow>
                  for_range 0 n
                    (\<lambda>ii arrays.
                       case axes_of (pattern_at data ii) of
                         Inl e \<Rightarrow> Inl e
                       | Inr pattern_axes \<Rightarrow> Inr (strain_store pattern_axes frame ii arrays))
                    (replicate n 0, replicate n 0, replicate n 0, replicate n 0)))"

text \<open>A stack whose two patterns are the same image.\<close>

definition demo_same_stack :: roi_stack where
  "demo_same_stack = \<lparr> depth = 2, pixels = [[[1, 1], [2, 2]], [[0, 0], [5, 5]]] \<rparr>"

section \<open>NBED: the rotation finder\<close>

text \<open>
  \<^verbatim>\<open>angle_fun\<close> and \<^verbatim>\<open>rotation_finder\<close>. \<open>nd_rotate image angle\<close> is
  \<^verbatim>\<open>scnd.rotate(image, angle, order=5, reshape=False)\<close> and \<open>minimize f x0\<close> is the
  field \<^verbatim>\<open>x\<close> of \<^verbatim>\<open>sio.minimize(f, x0)\<close>. \<^verbatim>\<open>np.sum(rotated_image, 1)\<close> is the list of
  the sums of the rows, whatever the argument \<^verbatim>\<open>axis\<close>, and \<^verbatim>\<open>rotation_finder\<close> calls
  \<^verbatim>\<open>angle_fun\<close> with its default axis.
\<close>

definition angle_fun :: "(image \<Rightarrow> real \<Rightarrow> image) \<Rightarrow> real \<Rightarrow> image \<Rightarrow> nat \<Rightarrow> py_error + real" where
  "angle_fun nd_rotate angle image_orig axis =
     (let rotated_image = nd_rotate image_orig angle;
          rotsum = map (\<lambda>row. (- 1) * sum_list row) rotated_image
      in np_amin rotsum)"

definition rotation_finder ::
  "((real \<Rightarrow> py_error + real) \<Rightarrow> real \<Rightarrow> py_error + real) \<Rightarrow> (image \<Rightarrow> real \<Rightarrow> image)
   \<Rightarrow> image \<Rightarrow> nat \<Rightarrow> py_error + real" where
  "rotation_finder minimize nd_rotate image_orig axis =
     (let x0 = 90 in minimize (\<lambda>angle. angle_fun nd_rotate angle image_orig 0) x0)"

text \<open>
  The summed intensity of an image, of which the specification says the objective is
  the negative, and the largest sum of a row.
\<close>

definition summed_intensity :: "image \<Rightarrow> real" where
  "summed_intensity img = sum_list (map sum_list img)"

definition largest_row_sum :: "image \<Rightarrow> real" where
  "largest_row_sum img = Max (set (map sum_list img))"

text \<open>
  For the examples: a rotation that turns the image by a quarter at 90 degrees and leaves
  it alone at any other angle (so at 0 degrees, as the library does), and a minimizer that compares the objective at 0 and at the
  initial guess.
\<close>

definition quarter_turn :: "image \<Rightarrow> real \<Rightarrow> image" where
  "quarter_turn img angle = (if angle = 90 then rev (transpose img) else img)"

definition two_point_minimize :: "(real \<Rightarrow> py_error + real) \<Rightarrow> real \<Rightarrow> py_error + real" where
  "two_point_minimize f x0 =
     (case f 0 of
        Inl e \<Rightarrow> Inl e
      | Inr a \<Rightarrow> (case f x0 of Inl e \<Rightarrow> Inl e | Inr b \<Rightarrow> Inr (if a \<le> b then 0 else x0)))"

section \<open>NBED: binning\<close>

text \<open>
  A two-dimensional array is its shape and its entries by row and column; the
  four-dimensional data set \<^verbatim>\<open>data4D\<close> is its shape and its entries by the two
  diffraction indices and the two scan indices. Entries outside the shape are not part
  of the array. The entries are \<^verbatim>\<open>float64\<close>: \<^verbatim>\<open>binned_data\<close> takes the data type of
  \<^verbatim>\<open>data4D\<close>, and an integer type would truncate what is stored.
\<close>

record array2 =
  nrows :: nat
  ncols :: nat
  at2 :: "nat \<Rightarrow> nat \<Rightarrow> real"

record array4 =
  dim0 :: nat
  dim1 :: nat
  dim2 :: nat
  dim3 :: nat
  at4 :: "nat \<Rightarrow> nat \<Rightarrow> nat \<Rightarrow> nat \<Rightarrow> real"

text \<open>\<^verbatim>\<open>np.round(x).astype(int)\<close>: the nearest integer, the even one at a tie.\<close>

definition np_round :: "real \<Rightarrow> int" where
  "np_round x =
     (if x - of_int \<lfloor>x\<rfloor> < 1 / 2 then \<lfloor>x\<rfloor>
      else if x - of_int \<lfloor>x\<rfloor> > 1 / 2 then \<lfloor>x\<rfloor> + 1
      else if even \<lfloor>x\<rfloor> then \<lfloor>x\<rfloor> else \<lfloor>x\<rfloor> + 1)"

text \<open>
  \<^verbatim>\<open>np.zeros((r, c))\<close>, the slices \<^verbatim>\<open>a[yy,:]\<close> and \<^verbatim>\<open>a[:,xx]\<close>, and the assignments
  \<^verbatim>\<open>a[yy,:] = r\<close> and \<^verbatim>\<open>a[:,xx] = c\<close>, which raise for a list of another length.
\<close>

definition np_zeros2 :: "nat \<Rightarrow> nat \<Rightarrow> array2" where
  "np_zeros2 r c = \<lparr> nrows = r, ncols = c, at2 = (\<lambda>i j. 0) \<rparr>"

definition row_of :: "array2 \<Rightarrow> nat \<Rightarrow> real list" where
  "row_of a yy = map (at2 a yy) [0..<ncols a]"

definition col_of :: "array2 \<Rightarrow> nat \<Rightarrow> real list" where
  "col_of a xx = map (\<lambda>i. at2 a i xx) [0..<nrows a]"

definition set_row :: "array2 \<Rightarrow> nat \<Rightarrow> real list \<Rightarrow> py_error + array2" where
  "set_row a yy r =
     (if length r = ncols a
      then Inr (a\<lparr>at2 := (\<lambda>i j. if i = yy \<and> j < ncols a then r ! j else at2 a i j)\<rparr>)
      else Inl ValueError)"

definition set_col :: "array2 \<Rightarrow> nat \<Rightarrow> real list \<Rightarrow> py_error + array2" where
  "set_col a xx c =
     (if length c = nrows a
      then Inr (a\<lparr>at2 := (\<lambda>i j. if j = xx \<and> i < nrows a then c ! i else at2 a i j)\<rparr>)
      else Inl ValueError)"

text \<open>
  \<^verbatim>\<open>resizer2D\<close>. A sampling of zero gives an infinite or undefined quotient, of which
  the conversion to an integer is negative, and \<^verbatim>\<open>np.zeros\<close> raises for a negative
  shape.
\<close>

definition resizer2D :: "array2 \<Rightarrow> real \<times> real \<Rightarrow> py_error + array2" where
  "resizer2D data sampling =
     (if fst sampling = 0 \<or> snd sampling = 0 then Inl ValueError
      else
        (let sampled_shape = (np_round (real (nrows data) / fst sampling),
                              np_round (real (ncols data) / snd sampling))
         in if fst sampled_shape < 0 \<or> snd sampled_shape < 0 then Inl ValueError
            else
              (case for_range 0 (nrows data)
                      (\<lambda>yy resampled_x.
                         case resizer (row_of data yy) (snd sampled_shape) of
                           Inl e \<Rightarrow> Inl e
                         | Inr r \<Rightarrow> set_row resampled_x yy r)
                      (np_zeros2 (nrows data) (nat (snd sampled_shape))) of
                 Inl e \<Rightarrow> Inl e
               | Inr resampled_x \<Rightarrow>
                   for_range 0 (nat (snd sampled_shape))
                     (\<lambda>xx resampled.
                        case resizer (col_of resampled_x xx) (fst sampled_shape) of
                          Inl e \<Rightarrow> Inl e
                        | Inr c \<Rightarrow> set_col resampled xx c)
                     (np_zeros2 (nat (fst sampled_shape)) (nat (snd sampled_shape))))))"

text \<open>
  \<^verbatim>\<open>np.mean(data4D, axis=(-1,-2))\<close> (of which \<^verbatim>\<open>bin4D\<close> uses the shape after
  resizing), the slice \<^verbatim>\<open>data4D[:,:,ii,jj]\<close>, the assignment
  \<^verbatim>\<open>binned_data[:,:,ii,jj] = p\<close>, which raises for an array of another shape, and
  \<^verbatim>\<open>np.zeros\<close> of four dimensions.
\<close>

definition np_mean_planes :: "array4 \<Rightarrow> array2" where
  "np_mean_planes a =
     \<lparr> nrows = dim0 a, ncols = dim1 a,
       at2 = (\<lambda>i j. (\<Sum>ii\<leftarrow>[0..<dim2 a]. \<Sum>jj\<leftarrow>[0..<dim3 a]. at4 a i j ii jj)
                     / real (dim2 a * dim3 a)) \<rparr>"

definition plane_of :: "array4 \<Rightarrow> nat \<Rightarrow> nat \<Rightarrow> array2" where
  "plane_of a ii jj = \<lparr> nrows = dim0 a, ncols = dim1 a, at2 = (\<lambda>i j. at4 a i j ii jj) \<rparr>"

definition set_plane :: "array4 \<Rightarrow> nat \<Rightarrow> nat \<Rightarrow> array2 \<Rightarrow> py_error + array4" where
  "set_plane a ii jj p =
     (if nrows p = dim0 a \<and> ncols p = dim1 a
      then Inr (a\<lparr>at4 := (\<lambda>i j k l. if k = ii \<and> l = jj \<and> i < dim0 a \<and> j < dim1 a
                                      then at2 p i j else at4 a i j k l)\<rparr>)
      else Inl ValueError)"

definition np_zeros4 :: "nat \<Rightarrow> nat \<Rightarrow> nat \<Rightarrow> nat \<Rightarrow> array4" where
  "np_zeros4 n0 n1 n2 n3 =
     \<lparr> dim0 = n0, dim1 = n1, dim2 = n2, dim3 = n3, at4 = (\<lambda>i j k l. 0) \<rparr>"

text \<open>\<^verbatim>\<open>bin4D\<close>, with its two nested loops over the scan positions.\<close>

definition bin4D :: "array4 \<Rightarrow> real \<Rightarrow> py_error + array4" where
  "bin4D data4D bin_factor =
     (let mean_data = np_mean_planes data4D in
      case resizer2D mean_data (bin_factor, bin_factor) of
        Inl e \<Rightarrow> Inl e
      | Inr mean_binned \<Rightarrow>
          for_range 0 (dim2 data4D)
            (\<lambda>ii binned_data.
               for_range 0 (dim3 data4D)
                 (\<lambda>jj binned_data.
                    case resizer2D (plane_of data4D ii jj) (bin_factor, bin_factor) of
                      Inl e \<Rightarrow> Inl e
                    | Inr p \<Rightarrow> set_plane binned_data ii jj p)
                 binned_data)
            (np_zeros4 (nrows mean_binned) (ncols mean_binned) (dim2 data4D) (dim3 data4D)))"

text \<open>A data set of two by two patterns at one by two scan positions, for the examples.\<close>

definition demo_data4 :: array4 where
  "demo_data4 = \<lparr> dim0 = 2, dim1 = 2, dim2 = 1, dim3 = 2,
                   at4 = (\<lambda>i j k l. real (i + 2 * j + 4 * l)) \<rparr>"

text \<open>
  The states of the loops when nothing is resampled: the first \<open>k\<close> rows, or columns,
  are those of the input; and all the planes before scan position \<open>(ii, jj)\<close> are those
  of the data set.
\<close>

definition rows_copied :: "array2 \<Rightarrow> nat \<Rightarrow> array2 \<Rightarrow> bool" where
  "rows_copied data k a =
     (nrows a = nrows data \<and> ncols a = ncols data
      \<and> (\<forall>i j. i < k \<and> j < ncols data \<longrightarrow> at2 a i j = at2 data i j))"

definition cols_copied :: "array2 \<Rightarrow> nat \<Rightarrow> array2 \<Rightarrow> bool" where
  "cols_copied data k a =
     (nrows a = nrows data \<and> ncols a = ncols data
      \<and> (\<forall>i j. j < k \<and> i < nrows data \<longrightarrow> at2 a i j = at2 data i j))"

definition planes_copied :: "array4 \<Rightarrow> nat \<Rightarrow> nat \<Rightarrow> array4 \<Rightarrow> bool" where
  "planes_copied data ii jj a =
     (dim0 a = dim0 data \<and> dim1 a = dim1 data \<and> dim2 a = dim2 data \<and> dim3 a = dim3 data
      \<and> (\<forall>i j k l. i < dim0 data \<and> j < dim1 data \<and> l < dim3 data
                    \<and> (k < ii \<or> (k = ii \<and> l < jj))
                  \<longrightarrow> at4 a i j k l = at4 data i j k l))"

section \<open>Properties of the loops\<close>



lemma for_range_invariant:
  assumes "P i s" and "i \<le> n"
    and step: "\<And>k t. i \<le> k \<Longrightarrow> k < n \<Longrightarrow> P k t \<Longrightarrow> \<exists>t'. body k t = Inr t' \<and> P (Suc k) t'"
  shows "\<exists>t. for_range i n body s = Inr t \<and> P n t"
  using assms
proof (induction "n - i" arbitrary: i s)
  case 0
  then have "i = n" by simp
  with 0 show ?case by (simp add: for_range.simps)
next
  case (Suc d)
  then have lt: "i < n" by simp
  from Suc.prems(3) [OF le_refl lt Suc.prems(1)]
  obtain t' where b: "body i s = Inr t'" and p: "P (Suc i) t'" by blast
  have d: "d = n - Suc i" using Suc.hyps(2) by simp
  have "\<exists>t. for_range (Suc i) n body t' = Inr t \<and> P n t"
  proof (rule Suc.hyps(1) [OF d p])
    show "Suc i \<le> n" using lt by simp
  next
    fix k t assume "Suc i \<le> k" "k < n" "P k t"
    then show "\<exists>t'. body k t = Inr t' \<and> P (Suc k) t'"
      using Suc.prems(3) [of k t] by simp
  qed
  then show ?case
    using lt b by (subst for_range.simps) simp
qed

lemma sum_list_update_real:
  fixes xs :: "real list"
  shows "k < length xs \<Longrightarrow> sum_list (xs[k := v]) = sum_list xs - xs ! k + v"
  by (induction xs arbitrary: k) (auto split: nat.splits)

lemma resizer_while_exit:
  assumes "1 \<le> N" and "int (Suc n) \<le> N" and "m \<le> length data"
  shows "\<exists>m'. resizer_while data N n m s =
            Inr (m', s + sum_list (take m' data) - sum_list (take m data))
          \<and> m \<le> m' \<and> m' \<le> length data \<and> int (Suc n) * int (length data) \<le> int m' * N"
  using assms
proof (induction data N n m s rule: resizer_while.induct)
  case (1 data N n m data_sum)
  let ?M = "length data"
  show ?case
  proof (cases "int m * N - int n * int ?M < int ?M")
    case True
    then have "int m * N < int (Suc n) * int ?M" by (simp add: algebra_simps)
    also have "\<dots> \<le> N * int ?M" using "1.prems"(2) by (intro mult_right_mono) auto
    finally have "int m * N < int ?M * N" by (simp add: mult.commute)
    then have lt: "m < ?M" using "1.prems"(1) by (simp add: mult_less_cancel_right)
    from "1.IH" [OF True lt "1.prems"(1,2)] lt
    obtain m' where r: "resizer_while data N n (Suc m) (data_sum + data ! m) =
          Inr (m', data_sum + data ! m + sum_list (take m' data) - sum_list (take (Suc m) data))"
      and b: "Suc m \<le> m'" "m' \<le> ?M" "int (Suc n) * int ?M \<le> int m' * N"
      by auto
    have "sum_list (take (Suc m) data) = sum_list (take m data) + data ! m"
      using lt by (simp add: take_Suc_conv_app_nth)
    with r b True lt show ?thesis
      by (subst resizer_while.simps) auto
  next
    case False
    then have "int (Suc n) * int ?M \<le> int m * N" by (simp add: algebra_simps)
    with False "1.prems" show ?thesis
      by (subst resizer_while.simps) auto
  qed
qed


lemma py_index_pred:
  "0 < m \<Longrightarrow> m \<le> length xs \<Longrightarrow> py_index xs (int m - 1) = Inr (xs ! (m - 1))"
  by (auto simp: py_index_def nat_diff_distrib)

lemma resizer_body_inv:
  assumes M: "1 \<le> length data" and N: "1 \<le> N" and k: "k < nat N"
    and inv: "resizer_inv data N k st"
  shows "\<exists>st'. resizer_body data N k st = Inr st' \<and> resizer_inv data N (Suc k) st'"
proof -
  obtain m carry res where st: "st = (m, carry, res)" by (cases st) auto
  let ?M = "length data"
  from inv st have len: "length res = nat N" and m: "m \<le> ?M"
    and zero: "res ! k = 0"
    and zeros: "\<forall>j. k \<le> j \<and> j < nat N \<longrightarrow> res ! j = 0"
    and acc: "sum_list res * real ?M / real_of_int N = sum_list (take m data) - carry"
    using k by (auto simp: resizer_inv_def)
  have k': "int (Suc k) \<le> N" using k by linarith
  from resizer_while_exit [OF N k' m, of carry]
  obtain m' where w: "resizer_while data N k m carry =
        Inr (m', carry + sum_list (take m' data) - sum_list (take m data))"
    and m': "m \<le> m'" "m' \<le> ?M" "int (Suc k) * int ?M \<le> int m' * N"
    by blast
  have "0 < int (Suc k) * int ?M" using M by (intro mult_pos_pos) auto
  with m'(3) have "0 < int m' * N" by linarith
  then have pos: "0 < m'" using N by (cases m') auto
  have idx: "py_index data (int m' - 1) = Inr (data ! (m' - 1))"
    using pos m'(2) by (rule py_index_pred)
  define carry' where "carry' = (real m' - real (k + 1) * real ?M / real_of_int N) * data ! (m' - 1)"
  define v where "v = (carry + sum_list (take m' data) - sum_list (take m data) - carry') * real_of_int N / real ?M"
  have body: "resizer_body data N k st = Inr (m', carry', res[k := v])"
    by (simp add: resizer_body_def st w idx carry'_def v_def Let_def)
  have klen: "k < length res" using k len by simp
  have "sum_list (res[k := v]) = sum_list res + v"
    using sum_list_update_real [OF klen, of v] zero by simp
  then have "sum_list (res[k := v]) * real ?M / real_of_int N
           = sum_list res * real ?M / real_of_int N + v * real ?M / real_of_int N"
    by (simp add: algebra_simps add_divide_distrib)
  also have "v * real ?M / real_of_int N
           = carry + sum_list (take m' data) - sum_list (take m data) - carry'"
  proof -
    have "real ?M \<noteq> 0" and "real_of_int N \<noteq> 0" using M N by auto
    then show ?thesis by (simp add: v_def)
  qed
  finally have acc': "sum_list (res[k := v]) * real ?M / real_of_int N
           = sum_list (take m' data) - carry'"
    using acc by simp
  have "resizer_inv data N (Suc k) (m', carry', res[k := v])"
    unfolding resizer_inv_def using len m'(2,3) zeros acc' carry'_def
    by (auto simp: nth_list_update)
  with body show ?thesis by blast
qed

text \<open>
  Claim C3. For an input array of length \<open>M \<ge> 1\<close> and a target length \<open>N \<ge> 1\<close>, whatever
  the ratio \<open>N / M\<close>, \<^verbatim>\<open>resizer(data, N)\<close> returns an array of length \<open>N\<close> whose sum
  is \<open>sum(data) * N / M\<close>.
\<close>

theorem resizer_sum:
  assumes M: "1 \<le> length data" and N: "1 \<le> N"
  shows "\<exists>res. resizer data N = Inr res \<and> length res = nat N
           \<and> sum_list res = sum_list data * real_of_int N / real (length data)"
proof -
  let ?M = "length data"
  have init: "resizer_inv data N 0 (0, 0, replicate (nat N) 0)"
    by (simp add: resizer_inv_def sum_list_replicate)
  from for_range_invariant [where P = "resizer_inv data N" and body = "resizer_body data N",
      OF init le0 resizer_body_inv [OF M N]]
  obtain st where run: "for_range 0 (nat N) (resizer_body data N) (0, 0, replicate (nat N) 0) = Inr st"
    and fin: "resizer_inv data N (nat N) st"
    by blast
  obtain m carry res where st: "st = (m, carry, res)" by (cases st) auto
  from fin st N have len: "length res = nat N" and m: "m \<le> ?M"
    and ge: "N * int ?M \<le> int m * N"
    and acc: "sum_list res * real ?M / real_of_int N = sum_list (take m data) - carry"
    and car: "\<exists>d. carry = (real m - real_of_int N * real ?M / real_of_int N) * d"
    by (auto simp: resizer_inv_def)
  from ge N have "int ?M \<le> int m" by (simp add: mult.commute)
  with m have mM: "m = ?M" by simp
  from car mM N have c0: "carry = 0" by auto
  from acc mM c0 have "sum_list res * real ?M / real_of_int N = sum_list data" by simp
  moreover have "real ?M \<noteq> 0" and "real_of_int N \<noteq> 0" using M N by auto
  ultimately have "sum_list res = sum_list data * real_of_int N / real ?M"
    by (simp add: field_simps)
  with run st len N show ?thesis
    by (simp add: resizer_def)
qed

theorem resizer_sum_witness:
  "\<exists>res. resizer [1, 2, 3] 2 = Inr res \<and> length res = 2 \<and> sum_list res = 4"
  using resizer_sum [of "[1, 2, 3]" 2] by simp

lemma resizer_while_same:
  assumes "n < length data"
  shows "resizer_while data (int (length data)) n n s = Inr (Suc n, s + data ! n)"
proof -
  have a: "int n * int (length data) - int n * int (length data) < int (length data)"
    using assms by (cases data) auto
  have b: "\<not> int (Suc n) * int (length data) - int n * int (length data) < int (length data)"
    by (simp add: algebra_simps)
  show ?thesis
    by (subst resizer_while.simps, simp only: a assms if_True,
        subst resizer_while.simps, simp only: b if_False)
qed

lemma resizer_body_same:
  assumes k: "k < length data" and inv: "resizer_same_inv data k st"
  shows "\<exists>st'. resizer_body data (int (length data)) k st = Inr st'
           \<and> resizer_same_inv data (Suc k) st'"
proof -
  obtain m carry res where st: "st = (m, carry, res)" by (cases st) auto
  from inv st have m: "m = k" and c: "carry = 0" and len: "length res = length data"
    and pre: "take k res = take k data"
    by (auto simp: resizer_same_inv_def)
  have idx: "py_index data (int k) = Inr (data ! k)"
    using k by (simp add: py_index_def)
  have M: "real (length data) \<noteq> 0" using k by auto
  have body: "resizer_body data (int (length data)) k st = Inr (Suc k, 0, res[k := data ! k])"
    using M by (simp add: resizer_body_def st m c resizer_while_same [OF k] idx Let_def)
  have "take (Suc k) (res[k := data ! k]) = take (Suc k) data"
    using k len pre by (simp add: take_Suc_conv_app_nth)
  with body len show ?thesis
    by (auto simp: resizer_same_inv_def)
qed

lemma resizer_identity: "resizer data (int (length data)) = Inr data"
proof -
  have init: "resizer_same_inv data 0 (0, 0, replicate (length data) 0)"
    by (simp add: resizer_same_inv_def)
  from for_range_invariant [where P = "resizer_same_inv data"
      and body = "resizer_body data (int (length data))", OF init le0 resizer_body_same]
  obtain st where run: "for_range 0 (length data) (resizer_body data (int (length data)))
        (0, 0, replicate (length data) 0) = Inr st"
    and fin: "resizer_same_inv data (length data) st"
    by blast
  obtain m carry res where st: "st = (m, carry, res)" by (cases st) auto
  from fin st have "res = data" by (auto simp: resizer_same_inv_def)
  with run st show ?thesis by (simp add: resizer_def)
qed

text \<open>
  Claim C9. Resampling an array to its own length returns the array:
  \<^verbatim>\<open>resizer(data, len(data))\<close> is \<open>data\<close>, for every array, the empty one included.
\<close>

theorem resizer_same_length: "resizer data (int (length data)) = Inr data"
  by (rule resizer_identity)

section \<open>The wavelet cleaner\<close>

text \<open>
  Claim C10. The output of \<^verbatim>\<open>cleanEELS_wavelet\<close> does not depend on its threshold
  argument: the function assigns 0.1 to the parameter before its first use, so two calls
  on the same spectrum with thresholds \<open>t1\<close> and \<open>t2\<close> return the same result (or raise
  the same exception).
\<close>

theorem cleanEELS_wavelet_threshold_ignored:
  "cleanEELS_wavelet lib data t1 = cleanEELS_wavelet lib data t2"
  by (simp add: cleanEELS_wavelet_def)

section \<open>The scatter of a region of interest\<close>

lemma length_mask_assign_row: "length (mask_assign_row xs bs vs) = length xs"
  by (induction xs bs vs rule: mask_assign_row.induct) (auto split: list.splits)

lemma mask_assign_row_False:
  "j < length xs \<Longrightarrow> j < length bs \<Longrightarrow> \<not> bs ! j \<Longrightarrow> mask_assign_row xs bs vs ! j = xs ! j"
proof (induction xs bs vs arbitrary: j rule: mask_assign_row.induct)
  case (1 x xs b bs vs)
  then show ?case by (cases j) (auto split: list.splits)
qed auto

lemma mask_select_assign_row:
  "length xs = length bs \<Longrightarrow> length (filter id bs) \<le> length vs \<Longrightarrow>
   mask_select_row (mask_assign_row xs bs vs) bs = take (length (filter id bs)) vs"
proof (induction xs bs vs rule: mask_assign_row.induct)
  case (1 x xs b bs vs)
  then show ?case by (cases vs) (auto simp: mask_select_row_def)
qed (auto simp: mask_select_row_def)

lemma map_length_mask_assign:
  "map length (mask_assign xss bss vs) = map length xss"
  by (induction xss bss vs rule: mask_assign.induct) (auto simp: length_mask_assign_row)

lemma mask_assign_False:
  "i < length xss \<Longrightarrow> i < length bss \<Longrightarrow> j < length (xss ! i) \<Longrightarrow> j < length (bss ! i) \<Longrightarrow>
   \<not> bss ! i ! j \<Longrightarrow> mask_assign xss bss vs ! i ! j = xss ! i ! j"
proof (induction xss bss vs arbitrary: i rule: mask_assign.induct)
  case (1 xs xss bs bss vs)
  then show ?case by (cases i) (auto simp: mask_assign_row_False)
qed auto

lemma mask_select_assign:
  "map length xss = map length bss \<Longrightarrow> count_nonzero bss = length vs \<Longrightarrow>
   mask_select (mask_assign xss bss vs) bss = vs"
proof (induction xss bss vs rule: mask_assign.induct)
  case (1 xs xss bs bss vs)
  let ?k = "length (filter id bs)"
  from "1.prems" have len: "length xs = length bs" and rest: "map length xss = map length bss"
    and cnt: "?k + count_nonzero bss = length vs"
    by (auto simp: count_nonzero_def)
  have a: "mask_select_row (mask_assign_row xs bs vs) bs = take ?k vs"
    using len cnt by (intro mask_select_assign_row) auto
  have b: "mask_select (mask_assign xss bss (drop ?k vs)) bss = drop ?k vs"
    using rest cnt by (intro "1.IH") auto
  show ?case using a b by (simp add: mask_select_def)
qed (auto simp: mask_select_def count_nonzero_def)

text \<open>
  Claim C8. For a boolean mask and as many values as the mask has true pixels,
  \<^verbatim>\<open>ROI_strain_map\<close> returns a map of the mask's shape that is zero wherever the mask
  is false, and reading the map at the true pixels of the mask, in the same order, gives
  the values back.
\<close>

theorem ROI_strain_map_roundtrip:
  assumes "length strain_ROI = count_nonzero ROI"
  shows "\<exists>strain_map. ROI_strain_map strain_ROI ROI = Inr strain_map
     \<and> map length strain_map = map length ROI
     \<and> (\<forall>i j. i < length ROI \<and> j < length (ROI ! i) \<and> \<not> ROI ! i ! j \<longrightarrow> strain_map ! i ! j = 0)
     \<and> mask_select strain_map ROI = strain_ROI"
proof -
  let ?z = "np_zeros_like ROI"
  have z: "map length ?z = map length ROI" by (simp add: np_zeros_like_def)
  have r: "ROI_strain_map strain_ROI ROI = Inr (mask_assign ?z ROI strain_ROI)"
    using assms by (simp add: ROI_strain_map_def Let_def)
  have s: "map length (mask_assign ?z ROI strain_ROI) = map length ROI"
    using z by (simp add: map_length_mask_assign)
  have f: "mask_assign ?z ROI strain_ROI ! i ! j = 0"
    if "i < length ROI" "j < length (ROI ! i)" "\<not> ROI ! i ! j" for i j
  proof -
    have "mask_assign ?z ROI strain_ROI ! i ! j = ?z ! i ! j"
      using that by (intro mask_assign_False) (auto simp: np_zeros_like_def)
    also have "\<dots> = 0" using that by (simp add: np_zeros_like_def)
    finally show ?thesis .
  qed
  have g: "mask_select (mask_assign ?z ROI strain_ROI) ROI = strain_ROI"
    using z assms by (intro mask_select_assign) auto
  show ?thesis using r s f g by auto
qed

theorem ROI_strain_map_roundtrip_witness:
  "\<exists>strain_map. ROI_strain_map [1, 2, 3] [[True, False], [True, True]] = Inr strain_map
     \<and> map length strain_map = [2, 2]
     \<and> strain_map ! 0 ! 1 = 0
     \<and> mask_select strain_map [[True, False], [True, True]] = [1, 2, 3]"
proof -
  let ?ROI = "[[True, False], [True, True]]"
  have "length [1, 2, 3 :: real] = count_nonzero ?ROI"
    by (simp add: count_nonzero_def)
  from ROI_strain_map_roundtrip [OF this]
  obtain strain_map where r: "ROI_strain_map [1, 2, 3] ?ROI = Inr strain_map"
    and s: "map length strain_map = map length ?ROI"
    and z: "\<forall>i j. i < length ?ROI \<and> j < length (?ROI ! i) \<and> \<not> ?ROI ! i ! j
              \<longrightarrow> strain_map ! i ! j = 0"
    and g: "mask_select strain_map ?ROI = [1, 2, 3]"
    by blast
  have "(0::nat) < length ?ROI \<and> (1::nat) < length (?ROI ! 0) \<and> \<not> ?ROI ! 0 ! 1"
    by simp
  with z have "strain_map ! 0 ! 1 = 0"
    by blast
  with r s g show ?thesis by simp
qed

section \<open>Least squares and the disk locator\<close>

lemma column_shift:
  fixes rows :: "(point \<times> point) list" and f :: "point \<Rightarrow> real"
  shows "(\<Sum>r\<leftarrow>rows. (fst (fst r) * p' + snd (fst r) * q' - f (snd r))\<^sup>2)
       = (\<Sum>r\<leftarrow>rows. (fst (fst r) * p + snd (fst r) * q - f (snd r))\<^sup>2)
       + 2 * (p' - p) * (p * (\<Sum>r\<leftarrow>rows. fst (fst r) * fst (fst r))
                        + q * (\<Sum>r\<leftarrow>rows. fst (fst r) * snd (fst r))
                        - (\<Sum>r\<leftarrow>rows. fst (fst r) * f (snd r)))
       + 2 * (q' - q) * (p * (\<Sum>r\<leftarrow>rows. snd (fst r) * fst (fst r))
                        + q * (\<Sum>r\<leftarrow>rows. snd (fst r) * snd (fst r))
                        - (\<Sum>r\<leftarrow>rows. snd (fst r) * f (snd r)))
       + (\<Sum>r\<leftarrow>rows. (fst (fst r) * (p' - p) + snd (fst r) * (q' - q))\<^sup>2)"
  by (induction rows) (simp_all add: algebra_simps power2_eq_square)

lemma column_optimal:
  fixes rows :: "(point \<times> point) list" and f :: "point \<Rightarrow> real"
  assumes "p * (\<Sum>r\<leftarrow>rows. fst (fst r) * fst (fst r)) + q * (\<Sum>r\<leftarrow>rows. fst (fst r) * snd (fst r))
           = (\<Sum>r\<leftarrow>rows. fst (fst r) * f (snd r))"
    and "p * (\<Sum>r\<leftarrow>rows. snd (fst r) * fst (fst r)) + q * (\<Sum>r\<leftarrow>rows. snd (fst r) * snd (fst r))
           = (\<Sum>r\<leftarrow>rows. snd (fst r) * f (snd r))"
  shows "(\<Sum>r\<leftarrow>rows. (fst (fst r) * p + snd (fst r) * q - f (snd r))\<^sup>2)
       \<le> (\<Sum>r\<leftarrow>rows. (fst (fst r) * p' + snd (fst r) * q' - f (snd r))\<^sup>2)"
proof -
  have "0 \<le> (\<Sum>r\<leftarrow>rows. (fst (fst r) * (p' - p) + snd (fst r) * (q' - q))\<^sup>2)"
    by (rule sum_list_nonneg) auto
  then show ?thesis
    using column_shift [where rows = rows and f = f and p = p and q = q and p' = p' and q' = q'] assms by simp
qed

lemma sum_list_squares_zero:
  fixes g :: "'a \<Rightarrow> real"
  assumes "(\<Sum>r\<leftarrow>rows. (g r)\<^sup>2) = 0" and "r \<in> set rows"
  shows "g r = 0"
proof -
  have "\<forall>x\<in>set (map (\<lambda>r. (g r)\<^sup>2) rows). x = 0"
    using assms(1) by (subst sum_list_nonneg_eq_0_iff [symmetric]) auto
  with assms(2) show ?thesis by auto
qed

lemma combination_squares:
  fixes rows :: "(point \<times> point) list"
  shows "(\<Sum>r\<leftarrow>rows. (c * fst (fst r) - d * snd (fst r))\<^sup>2)
       = c * c * (\<Sum>r\<leftarrow>rows. fst (fst r) * fst (fst r))
       - 2 * c * d * (\<Sum>r\<leftarrow>rows. fst (fst r) * snd (fst r))
       + d * d * (\<Sum>r\<leftarrow>rows. snd (fst r) * snd (fst r))"
  by (induction rows) (simp_all add: algebra_simps power2_eq_square)

lemma collinear_moments:
  fixes rows :: "(point \<times> point) list" and f :: "point \<Rightarrow> real"
  assumes "\<And>r. r \<in> set rows \<Longrightarrow> c * fst (fst r) = d * snd (fst r)"
  shows "c * (\<Sum>r\<leftarrow>rows. fst (fst r) * f (snd r)) = d * (\<Sum>r\<leftarrow>rows. snd (fst r) * f (snd r))"
  using assms
proof (induction rows)
  case Nil
  then show ?case by simp
next
  case (Cons r rows)
  have "c * fst (fst r) * f (snd r) = d * snd (fst r) * f (snd r)"
    using Cons.prems [of r] by simp
  moreover have "c * (\<Sum>r\<leftarrow>rows. fst (fst r) * f (snd r)) = d * (\<Sum>r\<leftarrow>rows. snd (fst r) * f (snd r))"
    using Cons.prems by (intro Cons.IH) auto
  ultimately show ?case by (simp add: algebra_simps)
qed

lemma solve_full_rank:
  fixes a b d cx ex :: real
  assumes nz: "a * d - b * b \<noteq> 0"
  shows "(d / (a * d - b * b) * cx + - b / (a * d - b * b) * ex) * a
       + (- b / (a * d - b * b) * cx + a / (a * d - b * b) * ex) * b = cx"
    and "(d / (a * d - b * b) * cx + - b / (a * d - b * b) * ex) * b
       + (- b / (a * d - b * b) * cx + a / (a * d - b * b) * ex) * d = ex"
proof -
  define D where "D = a * d - b * b"
  have D: "D \<noteq> 0" using nz by (simp add: D_def)
  have "(d / D * cx + - b / D * ex) * a + (- b / D * cx + a / D * ex) * b
      = (cx * (a * d - b * b)) / D"
    by (simp add: algebra_simps add_divide_distrib diff_divide_distrib)
  also have "\<dots> = cx" using D by (simp add: D_def)
  finally show "(d / (a * d - b * b) * cx + - b / (a * d - b * b) * ex) * a
       + (- b / (a * d - b * b) * cx + a / (a * d - b * b) * ex) * b = cx"
    by (simp only: D_def)
  have "(d / D * cx + - b / D * ex) * b + (- b / D * cx + a / D * ex) * d
      = (ex * (a * d - b * b)) / D"
    by (simp add: algebra_simps add_divide_distrib diff_divide_distrib)
  also have "\<dots> = ex" using D by (simp add: D_def)
  finally show "(d / (a * d - b * b) * cx + - b / (a * d - b * b) * ex) * b
       + (- b / (a * d - b * b) * cx + a / (a * d - b * b) * ex) * d = ex"
    by (simp only: D_def)
qed

lemma solve_rank_one:
  fixes a b d cx ex :: real
  assumes det: "a * d - b * b = 0" and t: "a + d \<noteq> 0"
    and c1: "d * cx = b * ex" and c2: "b * cx = a * ex"
  shows "(1 / ((a + d) * (a + d)) * a * cx + 1 / ((a + d) * (a + d)) * b * ex) * a
       + (1 / ((a + d) * (a + d)) * b * cx + 1 / ((a + d) * (a + d)) * d * ex) * b = cx"
    and "(1 / ((a + d) * (a + d)) * a * cx + 1 / ((a + d) * (a + d)) * b * ex) * b
       + (1 / ((a + d) * (a + d)) * b * cx + 1 / ((a + d) * (a + d)) * d * ex) * d = ex"
proof -
  have bb: "b * b = a * d" using det by simp
  have e1: "a * (b * ex) = a * (d * cx)" using c1 by simp
  have e2: "d * (b * ex) = d * (d * cx)" using c1 by simp
  have e3: "a * (b * cx) = a * (a * ex)" using c2 by simp
  have e4: "d * (b * cx) = d * (a * ex)" using c2 by simp
  have n1: "(a * cx + b * ex) * a + (b * cx + d * ex) * b = cx * ((a + d) * (a + d))"
  proof -
    have "(a * cx + b * ex) * a + (b * cx + d * ex) * b
        = a * a * cx + a * (b * ex) + (b * b) * cx + d * (b * ex)"
      by (simp add: algebra_simps)
    also have "\<dots> = a * a * cx + a * (d * cx) + (a * d) * cx + d * (d * cx)"
      by (simp only: e1 e2 bb)
    also have "\<dots> = cx * ((a + d) * (a + d))" by (simp add: algebra_simps)
    finally show ?thesis .
  qed
  have n2: "(a * cx + b * ex) * b + (b * cx + d * ex) * d = ex * ((a + d) * (a + d))"
  proof -
    have "(a * cx + b * ex) * b + (b * cx + d * ex) * d
        = a * (b * cx) + (b * b) * ex + d * (b * cx) + d * d * ex"
      by (simp add: algebra_simps)
    also have "\<dots> = a * (a * ex) + (a * d) * ex + d * (a * ex) + d * d * ex"
      by (simp only: e3 e4 bb)
    also have "\<dots> = ex * ((a + d) * (a + d))" by (simp add: algebra_simps)
    finally show ?thesis .
  qed
  have nz: "(a + d) * (a + d) \<noteq> 0" using t by simp
  have "(1 / ((a + d) * (a + d)) * a * cx + 1 / ((a + d) * (a + d)) * b * ex) * a
       + (1 / ((a + d) * (a + d)) * b * cx + 1 / ((a + d) * (a + d)) * d * ex) * b
      = ((a * cx + b * ex) * a + (b * cx + d * ex) * b) / ((a + d) * (a + d))"
    by (simp add: algebra_simps add_divide_distrib)
  also have "\<dots> = cx" using nz by (simp add: n1)
  finally show "(1 / ((a + d) * (a + d)) * a * cx + 1 / ((a + d) * (a + d)) * b * ex) * a
       + (1 / ((a + d) * (a + d)) * b * cx + 1 / ((a + d) * (a + d)) * d * ex) * b = cx" .
  have "(1 / ((a + d) * (a + d)) * a * cx + 1 / ((a + d) * (a + d)) * b * ex) * b
       + (1 / ((a + d) * (a + d)) * b * cx + 1 / ((a + d) * (a + d)) * d * ex) * d
      = ((a * cx + b * ex) * b + (b * cx + d * ex) * d) / ((a + d) * (a + d))"
    by (simp add: algebra_simps add_divide_distrib)
  also have "\<dots> = ex" using nz by (simp add: n2)
  finally show "(1 / ((a + d) * (a + d)) * a * cx + 1 / ((a + d) * (a + d)) * b * ex) * b
       + (1 / ((a + d) * (a + d)) * b * cx + 1 / ((a + d) * (a + d)) * d * ex) * d = ex" .
qed

lemma np_lstsq_columns:
  assumes "np_lstsq a b = Inr L"
  shows "(m00 L, m10 L) = solve_column (gram a) (m00 (moments a b)) (m10 (moments a b))"
    and "(m01 L, m11 L) = solve_column (gram a) (m01 (moments a b)) (m11 (moments a b))"
  using assms
  by (auto simp: np_lstsq_def solve_column_def Let_def np_matmul_def mat_scale_def
      split: if_splits)

lemma gram_rows:
  assumes "length a = length b"
  shows "gram a = Mat2 (\<Sum>r\<leftarrow>zip a b. fst (fst r) * fst (fst r))
                       (\<Sum>r\<leftarrow>zip a b. fst (fst r) * snd (fst r))
                       (\<Sum>r\<leftarrow>zip a b. fst (fst r) * snd (fst r))
                       (\<Sum>r\<leftarrow>zip a b. snd (fst r) * snd (fst r))"
proof -
  have a: "a = map fst (zip a b)" using assms by simp
  have "gram (map fst (zip a b)) = Mat2 (\<Sum>r\<leftarrow>zip a b. fst (fst r) * fst (fst r))
                       (\<Sum>r\<leftarrow>zip a b. fst (fst r) * snd (fst r))
                       (\<Sum>r\<leftarrow>zip a b. fst (fst r) * snd (fst r))
                       (\<Sum>r\<leftarrow>zip a b. snd (fst r) * snd (fst r))"
    unfolding gram_def by (simp add: o_def mult.commute)
  with a show ?thesis by simp
qed

lemma solve_column_normal:
  fixes rows :: "(point \<times> point) list" and f :: "point \<Rightarrow> real"
  defines "hh \<equiv> (\<Sum>r\<leftarrow>rows. fst (fst r) * fst (fst r))"
    and "hk \<equiv> (\<Sum>r\<leftarrow>rows. fst (fst r) * snd (fst r))"
    and "kk \<equiv> (\<Sum>r\<leftarrow>rows. snd (fst r) * snd (fst r))"
    and "hf \<equiv> (\<Sum>r\<leftarrow>rows. fst (fst r) * f (snd r))"
    and "kf \<equiv> (\<Sum>r\<leftarrow>rows. snd (fst r) * f (snd r))"
  assumes pq: "(p, q) = solve_column (Mat2 hh hk hk kk) hf kf"
  shows "p * hh + q * hk = hf" and "p * hk + q * kk = kf"
proof -
  have sq: "(\<Sum>r\<leftarrow>rows. (c * fst (fst r) - d * snd (fst r))\<^sup>2)
          = c * c * hh - 2 * c * d * hk + d * d * kk" for c d
    unfolding hh_def hk_def kk_def by (rule combination_squares)
  have hh0: "0 \<le> hh" unfolding hh_def by (rule sum_list_nonneg) auto
  have kk0: "0 \<le> kk" unfolding kk_def by (rule sum_list_nonneg) auto
  consider (full) "hh * kk - hk * hk \<noteq> 0"
    | (one) "hh * kk - hk * hk = 0" "hh + kk \<noteq> 0"
    | (zero) "hh * kk - hk * hk = 0" "hh + kk = 0"
    by blast
  then have "p * hh + q * hk = hf \<and> p * hk + q * kk = kf"
  proof cases
    case full
    then have "p = kk / (hh * kk - hk * hk) * hf + - hk / (hh * kk - hk * hk) * kf"
      and "q = - hk / (hh * kk - hk * hk) * hf + hh / (hh * kk - hk * hk) * kf"
      using pq by (simp_all add: solve_column_def mat_det_def mat_inverse_def)
    then show ?thesis using solve_full_rank [OF full, of hf kf] by simp
  next
    case one
    have "(\<Sum>r\<leftarrow>rows. (kk * fst (fst r) - hk * snd (fst r))\<^sup>2) = kk * (hh * kk - hk * hk)"
      by (simp add: sq algebra_simps)
    then have "(\<Sum>r\<leftarrow>rows. (kk * fst (fst r) - hk * snd (fst r))\<^sup>2) = 0"
      using one(1) by simp
    then have "kk * fst (fst r) = hk * snd (fst r)" if "r \<in> set rows" for r
      using sum_list_squares_zero [where g = "\<lambda>r. kk * fst (fst r) - hk * snd (fst r)", OF _ that]
      by simp
    then have c1: "kk * hf = hk * kf"
      unfolding hf_def kf_def by (rule collinear_moments)
    have "(\<Sum>r\<leftarrow>rows. (hk * fst (fst r) - hh * snd (fst r))\<^sup>2) = hh * (hh * kk - hk * hk)"
      by (simp add: sq algebra_simps)
    then have "(\<Sum>r\<leftarrow>rows. (hk * fst (fst r) - hh * snd (fst r))\<^sup>2) = 0"
      using one(1) by simp
    then have "hk * fst (fst r) = hh * snd (fst r)" if "r \<in> set rows" for r
      using sum_list_squares_zero [where g = "\<lambda>r. hk * fst (fst r) - hh * snd (fst r)", OF _ that]
      by simp
    then have c2: "hk * hf = hh * kf"
      unfolding hf_def kf_def by (rule collinear_moments)
    have "p = 1 / ((hh + kk) * (hh + kk)) * hh * hf + 1 / ((hh + kk) * (hh + kk)) * hk * kf"
      and "q = 1 / ((hh + kk) * (hh + kk)) * hk * hf + 1 / ((hh + kk) * (hh + kk)) * kk * kf"
      using pq one by (simp_all add: solve_column_def mat_det_def Let_def)
    then show ?thesis using solve_rank_one [OF one(1) one(2) c1 c2] by simp
  next
    case zero
    from zero(2) hh0 kk0 have h0: "hh = 0" and k0: "kk = 0" by linarith+
    with zero(1) have hk0: "hk = 0" by simp
    have "(\<Sum>r\<leftarrow>rows. (fst (fst r))\<^sup>2) = 0" using h0 by (simp add: hh_def power2_eq_square)
    then have "1 * fst (fst r) = 0 * snd (fst r)" if "r \<in> set rows" for r
      using sum_list_squares_zero [where g = "\<lambda>r. fst (fst r)", OF _ that] by simp
    then have "1 * hf = 0 * kf" unfolding hf_def kf_def by (rule collinear_moments)
    then have hf0: "hf = 0" by simp
    have "(\<Sum>r\<leftarrow>rows. (snd (fst r))\<^sup>2) = 0" using k0 by (simp add: kk_def power2_eq_square)
    then have "0 * fst (fst r) = 1 * snd (fst r)" if "r \<in> set rows" for r
      using sum_list_squares_zero [where g = "\<lambda>r. snd (fst r)", OF _ that] by simp
    then have "0 * hf = 1 * kf" unfolding hf_def kf_def by (rule collinear_moments)
    then have kf0: "kf = 0" by simp
    show ?thesis by (simp add: h0 k0 hk0 hf0 kf0)
  qed
  then show "p * hh + q * hk = hf" and "p * hk + q * kk = kf" by simp_all
qed

lemma np_lstsq_least_squares:
  assumes len: "length a = length b"
  shows "\<exists>L. np_lstsq a b = Inr L \<and> (\<forall>X. residual a L b \<le> residual a X b)"
proof -
  have "\<exists>L. np_lstsq a b = Inr L"
    using len by (simp add: np_lstsq_def Let_def)
  then obtain L where L: "np_lstsq a b = Inr L" ..
  let ?rows = "zip a b"
  note g = gram_rows [OF len]
  have c1: "(m00 L, m10 L) = solve_column (gram a)
              (\<Sum>r\<leftarrow>?rows. fst (fst r) * fst (snd r)) (\<Sum>r\<leftarrow>?rows. snd (fst r) * fst (snd r))"
    using np_lstsq_columns(1) [OF L] by (simp add: moments_def)
  have c2: "(m01 L, m11 L) = solve_column (gram a)
              (\<Sum>r\<leftarrow>?rows. fst (fst r) * snd (snd r)) (\<Sum>r\<leftarrow>?rows. snd (fst r) * snd (snd r))"
    using np_lstsq_columns(2) [OF L] by (simp add: moments_def)
  have "residual a L b \<le> residual a X b" for X
  proof -
    have x: "(\<Sum>r\<leftarrow>?rows. (fst (fst r) * m00 L + snd (fst r) * m10 L - fst (snd r))\<^sup>2)
           \<le> (\<Sum>r\<leftarrow>?rows. (fst (fst r) * m00 X + snd (fst r) * m10 X - fst (snd r))\<^sup>2)"
      using solve_column_normal [where rows = ?rows and f = fst, OF c1 [unfolded g]]
      by (intro column_optimal) (simp_all add: mult.commute)
    have y: "(\<Sum>r\<leftarrow>?rows. (fst (fst r) * m01 L + snd (fst r) * m11 L - snd (snd r))\<^sup>2)
           \<le> (\<Sum>r\<leftarrow>?rows. (fst (fst r) * m01 X + snd (fst r) * m11 X - snd (snd r))\<^sup>2)"
      using solve_column_normal [where rows = ?rows and f = snd, OF c2 [unfolded g]]
      by (intro column_optimal) (simp_all add: mult.commute)
    show ?thesis
      unfolding residual_def sum_list_addf using x y by (rule add_mono)
  qed
  with L show ?thesis by blast
qed

lemma filter_zip_first:
  assumes "length xs = length ys"
    and "filter (\<lambda>r. P (snd r)) (zip xs ys) = r # rs"
  shows "\<exists>i<length ys. P (ys ! i) \<and> xs ! i = fst r \<and> ys ! i = snd r"
proof -
  have "r \<in> set (filter (\<lambda>r. P (snd r)) (zip xs ys))" using assms(2) by simp
  then have "r \<in> set (zip xs ys)" and p: "P (snd r)" by auto
  then obtain i where "i < length ys" "xs ! i = fst r" "ys ! i = snd r"
    using assms(1) by (auto simp: in_set_zip)
  with p show ?thesis by auto
qed

lemma filter_zip_nonempty:
  assumes "length xs = length ys" and "filter P ys \<noteq> []"
  shows "filter (\<lambda>r. P (snd r)) (zip xs ys) \<noteq> []"
proof -
  from assms(2) obtain y where "y \<in> set ys" "P y"
    by (auto simp: filter_empty_conv)
  then obtain i where i: "i < length ys" "ys ! i = y" by (auto simp: in_set_conv_nth)
  then have "(xs ! i, ys ! i) \<in> set (zip xs ys)"
    using assms(1) by (auto simp: in_set_zip)
  with i \<open>P y\<close> show ?thesis
    by (auto simp: filter_empty_conv intro!: bexI [where x = "(xs ! i, ys ! i)"])
qed

text \<open>
  Claim C2. For \<open>N\<close> positions and \<open>N\<close> disk indices of which exactly one is (0,0),
  \<^verbatim>\<open>fit_nbed_disks\<close> returns (1) the list of the positions refined by the peak fitter,
  called at each approximate position with the radius \<open>disk_size\<close>; (2) the refined
  position of the disk of index (0,0), in image coordinates (its second coordinate is
  negated twice); and (3) a matrix \<open>L\<close> that minimises, over all \<open>2 \<times> 2\<close> matrices \<open>X\<close>,
  the squared distance between \<open>diff_spots X\<close> and the refined positions with the second
  coordinate negated and the centre subtracted: a least-squares solution without
  intercept.
\<close>

theorem fit_nbed_disks_result:
  assumes len: "length positions = length diff_spots"
    and one: "length (filter (\<lambda>s. fst s = 0 \<and> snd s = 0) diff_spots) = 1"
  shows "\<exists>fitted c L.
      fit_nbed_disks lib corr_image disk_size positions diff_spots = Inr (fitted, c, L)
    \<and> fitted = map (\<lambda>pos. fit_gaussian2D_mask lib corr_image (fst pos) (snd pos) disk_size) positions
    \<and> (\<exists>i<length diff_spots. diff_spots ! i = (0, 0) \<and> c = fitted ! i)
    \<and> (\<forall>X. residual diff_spots L (map (\<lambda>d. (fst d - fst c, - snd d - (- snd c))) fitted)
          \<le> residual diff_spots X (map (\<lambda>d. (fst d - fst c, - snd d - (- snd c))) fitted))"
proof -
  define fitted where
    "fitted = map (\<lambda>pos. fit_gaussian2D_mask lib corr_image (fst pos) (snd pos) disk_size) positions"
  define locs where "locs = map (\<lambda>d. (fst d, 0 - snd d)) fitted"
  let ?P = "\<lambda>s::point. fst s = 0 \<and> snd s = 0"
  have ll: "length locs = length diff_spots" using len by (simp add: locs_def fitted_def)
  have ne: "positions \<noteq> []" using len one by auto
  have "filter ?P diff_spots \<noteq> []" using one by auto
  then have "filter (\<lambda>r. ?P (snd r)) (zip locs diff_spots) \<noteq> []"
    using ll by (intro filter_zip_nonempty)
  then obtain r rs where f: "filter (\<lambda>r. ?P (snd r)) (zip locs diff_spots) = r # rs"
    by (cases "filter (\<lambda>r. ?P (snd r)) (zip locs diff_spots)") auto
  from filter_zip_first [OF ll f]
  obtain i where i: "i < length diff_spots" "?P (diff_spots ! i)" "locs ! i = fst r"
    by blast
  define cx where "cx = fst (fst r)"
  define cy where "cy = snd (fst r)"
  define locs' where "locs' = map (\<lambda>d. (fst d - cx, snd d - cy)) locs"
  have ll': "length diff_spots = length locs'" using ll by (simp add: locs'_def)
  from np_lstsq_least_squares [OF ll']
  obtain L where L: "np_lstsq diff_spots locs' = Inr L"
    and opt: "\<forall>X. residual diff_spots L locs' \<le> residual diff_spots X locs'"
    by blast
  have run: "fit_nbed_disks lib corr_image disk_size positions diff_spots
           = Inr (fitted, (cx, (- 1) * cy), L)"
    using ne len f L unfolding locs'_def locs_def
    by (simp add: fit_nbed_disks_def Let_def fitted_def [symmetric] cx_def cy_def)
  have fi: "locs ! i = (fst (fitted ! i), - snd (fitted ! i))"
    using i(1) ll by (simp add: locs_def)
  have c: "(cx, (- 1) * cy) = fitted ! i"
    using i(3) fi by (simp add: cx_def cy_def prod_eq_iff)
  have z: "diff_spots ! i = (0, 0)" using i(2) by (simp add: prod_eq_iff)
  have same: "map (\<lambda>d. (fst d - fst (cx, (- 1) * cy), - snd d - (- snd (cx, (- 1) * cy)))) fitted = locs'"
    by (simp add: locs'_def locs_def)
  have ex: "\<exists>i<length diff_spots. diff_spots ! i = (0, 0) \<and> (cx, (- 1) * cy) = fitted ! i"
    using i(1) z c by blast
  have opt': "\<forall>X. residual diff_spots L
        (map (\<lambda>d. (fst d - fst (cx, (- 1) * cy), - snd d - (- snd (cx, (- 1) * cy)))) fitted)
      \<le> residual diff_spots X
        (map (\<lambda>d. (fst d - fst (cx, (- 1) * cy), - snd d - (- snd (cx, (- 1) * cy)))) fitted)"
    unfolding same by (rule opt)
  show ?thesis
    apply (rule exI [where x = fitted])
    apply (rule exI [where x = "(cx, (- 1) * cy)"])
    apply (rule exI [where x = L])
    apply (intro conjI)
       apply (rule run)
      apply (rule fitted_def)
     apply (rule ex)
    apply (rule opt')
    done
qed

theorem fit_nbed_disks_result_witness:
  "\<exists>fitted c L.
      fit_nbed_disks demo_lib [] 3 [(10, 10), (14, 11), (9, 14)] [(0, 0), (1, 0), (0, 1)]
        = Inr (fitted, c, L)
    \<and> fitted = [(21 / 2, 39 / 4), (29 / 2, 43 / 4), (19 / 2, 55 / 4)]
    \<and> residual [(0, 0), (1, 0), (0, 1)] L
          (map (\<lambda>d. (fst d - fst c, - snd d - (- snd c))) fitted)
      \<le> residual [(0, 0), (1, 0), (0, 1)] (Mat2 1 0 0 1)
          (map (\<lambda>d. (fst d - fst c, - snd d - (- snd c))) fitted)"
proof -
  let ?positions = "[(10, 10), (14, 11), (9, 14)] :: point list"
  let ?spots = "[(0, 0), (1, 0), (0, 1)] :: point list"
  have len: "length ?positions = length ?spots" by simp
  have one: "length (filter (\<lambda>s. fst s = 0 \<and> snd s = 0) ?spots) = 1" by simp
  from fit_nbed_disks_result [OF len one, of demo_lib "[]" 3]
  obtain fitted c L where
    r: "fit_nbed_disks demo_lib [] 3 ?positions ?spots = Inr (fitted, c, L)"
    and f: "fitted = map (\<lambda>pos. fit_gaussian2D_mask demo_lib [] (fst pos) (snd pos) 3) ?positions"
    and o: "\<forall>X. residual ?spots L (map (\<lambda>d. (fst d - fst c, - snd d - (- snd c))) fitted)
              \<le> residual ?spots X (map (\<lambda>d. (fst d - fst c, - snd d - (- snd c))) fitted)"
    by blast
  have "fitted = [(21 / 2, 39 / 4), (29 / 2, 43 / 4), (19 / 2, 55 / 4)]"
    using f by (simp add: demo_lib_def)
  with r o show ?thesis by blast
qed

section \<open>The strain of a region of interest\<close>

lemma for_range_cong:
  assumes "\<And>k t. i \<le> k \<Longrightarrow> k < n \<Longrightarrow> f k t = g k t"
  shows "for_range i n f s = for_range i n g s"
  using assms
proof (induction "n - i" arbitrary: i s)
  case 0
  then show ?case by (simp add: for_range.simps)
next
  case (Suc d)
  then have lt: "i < n" by simp
  have fg: "f i s = g i s" using Suc.prems [of i s] lt by simp
  have rec: "for_range (Suc i) n f t = for_range (Suc i) n g t" for t
  proof (rule Suc.hyps(1))
    show "d = n - Suc i" using Suc.hyps(2) by simp
  next
    fix k u assume "Suc i \<le> k" "k < n"
    then show "f k u = g k u" using Suc.prems [of k u] by simp
  qed
  have "for_range i n f s = (case f i s of Inl e \<Rightarrow> Inl e | Inr s' \<Rightarrow> for_range (Suc i) n f s')"
    using lt by (subst for_range.simps) simp
  also have "\<dots> = (case g i s of Inl e \<Rightarrow> Inl e | Inr s' \<Rightarrow> for_range (Suc i) n g s')"
    by (simp add: fg rec split: sum.splits)
  also have "\<dots> = for_range i n g s"
    using lt by (subst (2) for_range.simps) simp
  finally show ?case .
qed

lemma fill_next:
  assumes "k < n"
  shows "(map f [0..<k] @ replicate (n - k) (0::real))[k := f k]
       = map f [0..<Suc k] @ replicate (n - Suc k) 0"
proof -
  have r: "replicate (n - k) (0::real) = 0 # replicate (n - Suc k) 0"
    using assms by (simp add: Suc_diff_Suc replicate_Suc [symmetric] del: replicate_Suc)
  have "(map f [0..<k] @ 0 # replicate (n - Suc k) (0::real))[length (map f [0..<k]) := f k]
      = map f [0..<k] @ f k # replicate (n - Suc k) 0"
    by (rule list_update_length)
  then show ?thesis by (simp add: r)
qed

lemma strain_store_row:
  "strain_store a inverse_axes ii (e_xx, e_xy, e_th, e_yy)
   = (e_xx[ii := fst (strain_row a inverse_axes)],
      e_xy[ii := fst (snd (strain_row a inverse_axes))],
      e_th[ii := fst (snd (snd (strain_row a inverse_axes)))],
      e_yy[ii := snd (snd (snd (strain_row a inverse_axes)))])"
  by (simp add: strain_store_def strain_row_def Let_def)

lemma strain_loop:
  assumes fits: "\<And>ii. ii < n \<Longrightarrow> axes_of ii = Inr (A ii)"
  shows "for_range 0 n
           (\<lambda>ii st. case axes_of ii of
                       Inl e \<Rightarrow> Inl e
                     | Inr pattern_axes \<Rightarrow> Inr (strain_store pattern_axes inverse_axes ii st))
           (replicate n 0, replicate n 0, replicate n 0, replicate n 0)
       = Inr (map (\<lambda>ii. fst (strain_row (A ii) inverse_axes)) [0..<n],
              map (\<lambda>ii. fst (snd (strain_row (A ii) inverse_axes))) [0..<n],
              map (\<lambda>ii. fst (snd (snd (strain_row (A ii) inverse_axes)))) [0..<n],
              map (\<lambda>ii. snd (snd (snd (strain_row (A ii) inverse_axes)))) [0..<n])"
proof -
  let ?body = "\<lambda>ii st. case axes_of ii of
                       Inl e \<Rightarrow> Inl e
                     | Inr pattern_axes \<Rightarrow> Inr (strain_store pattern_axes inverse_axes ii st)"
  have init: "strain_inv n A inverse_axes 0 (replicate n 0, replicate n 0, replicate n 0, replicate n 0)"
    by (simp add: strain_inv_def)
  have step: "\<exists>t'. ?body k t = Inr t' \<and> strain_inv n A inverse_axes (Suc k) t'"
    if "0 \<le> k" "k < n" "strain_inv n A inverse_axes k t" for k t
  proof -
    obtain e_xx e_xy e_th e_yy where t: "t = (e_xx, e_xy, e_th, e_yy)" by (cases t) auto
    note f1 = fill_next [OF that(2), where f = "\<lambda>ii. fst (strain_row (A ii) inverse_axes)"]
    note f2 = fill_next [OF that(2), where f = "\<lambda>ii. fst (snd (strain_row (A ii) inverse_axes))"]
    note f3 = fill_next [OF that(2), where f = "\<lambda>ii. fst (snd (snd (strain_row (A ii) inverse_axes)))"]
    note f4 = fill_next [OF that(2), where f = "\<lambda>ii. snd (snd (snd (strain_row (A ii) inverse_axes)))"]
    have "strain_inv n A inverse_axes (Suc k) (strain_store (A k) inverse_axes k t)"
      using that(3) unfolding t strain_inv_def strain_store_row
      by (simp only: prod.case f1 f2 f3 f4)
    then show ?thesis using fits [OF that(2)] by simp
  qed
  from for_range_invariant [where P = "strain_inv n A inverse_axes" and body = ?body,
      OF init le0 step]
  obtain t where run: "for_range 0 n ?body (replicate n 0, replicate n 0, replicate n 0, replicate n 0) = Inr t"
    and fin: "strain_inv n A inverse_axes n t"
    by blast
  from fin have "t = (map (\<lambda>ii. fst (strain_row (A ii) inverse_axes)) [0..<n],
              map (\<lambda>ii. fst (snd (strain_row (A ii) inverse_axes))) [0..<n],
              map (\<lambda>ii. fst (snd (snd (strain_row (A ii) inverse_axes)))) [0..<n],
              map (\<lambda>ii. snd (snd (snd (strain_row (A ii) inverse_axes)))) [0..<n])"
    by (cases t) (simp add: strain_inv_def)
  with run show ?thesis by simp
qed

lemma mat_inverse_right:
  "mat_det a \<noteq> 0 \<Longrightarrow> np_matmul a (mat_inverse a) = np_eye2"
  by (simp add: np_matmul_def mat_inverse_def np_eye2_def mat_det_def
      diff_divide_distrib [symmetric] add_divide_distrib [symmetric])

lemma mat_inverse_left:
  "mat_det a \<noteq> 0 \<Longrightarrow> np_matmul (mat_inverse a) a = np_eye2"
  by (simp add: np_matmul_def mat_inverse_def np_eye2_def mat_det_def
      diff_divide_distrib [symmetric] add_divide_distrib [symmetric] mult.commute)

lemma strain_rows_emitted:
  "strain_emitted n A inverse_axes
     (map (\<lambda>ii. fst (strain_row (A ii) inverse_axes)) [0..<n],
      map (\<lambda>ii. fst (snd (strain_row (A ii) inverse_axes))) [0..<n],
      map (\<lambda>ii. fst (snd (snd (strain_row (A ii) inverse_axes)))) [0..<n],
      map (\<lambda>ii. snd (snd (snd (strain_row (A ii) inverse_axes)))) [0..<n])"
  by (simp add: strain_emitted_def strain_row_def Let_def)

lemma strain_in_ROI_run:
  assumes ref: "reference_axes = Some R \<or>
      (reference_axes = None \<and>
       edge_axes lib (fst (sobel lib center_disk)) (disk_radius center_disk) disk_list pos_list
         med_factor (np_mean_last data) = Inr R)"
    and det: "mat_det R \<noteq> 0"
    and fits: "\<And>ii. ii < depth data \<Longrightarrow>
       edge_axes lib (fst (sobel lib center_disk)) (disk_radius center_disk) disk_list pos_list
         med_factor (pattern_at data ii) = Inr (A ii)"
  shows "strain_in_ROI lib data center_disk disk_list pos_list reference_axes med_factor
       = Inr (map (\<lambda>ii. fst (strain_row (A ii) (mat_inverse R))) [0..<depth data],
              map (\<lambda>ii. fst (snd (strain_row (A ii) (mat_inverse R)))) [0..<depth data],
              map (\<lambda>ii. fst (snd (snd (strain_row (A ii) (mat_inverse R))))) [0..<depth data],
              map (\<lambda>ii. snd (snd (snd (strain_row (A ii) (mat_inverse R))))) [0..<depth data])"
proof -
  have inv: "np_linalg_inv R = Inr (mat_inverse R)" using det by (simp add: np_linalg_inv_def)
  note loop = strain_loop [where n = "depth data" and A = A and inverse_axes = "mat_inverse R"
      and axes_of = "\<lambda>ii. edge_axes lib (fst (sobel lib center_disk)) (disk_radius center_disk)
         disk_list pos_list med_factor (pattern_at data ii)", OF fits]
  from ref show ?thesis
  proof
    assume "reference_axes = Some R"
    then show ?thesis by (simp add: strain_in_ROI_def Let_def inv loop)
  next
    assume "reference_axes = None \<and>
       edge_axes lib (fst (sobel lib center_disk)) (disk_radius center_disk) disk_list pos_list
         med_factor (np_mean_last data) = Inr R"
    then show ?thesis by (simp add: strain_in_ROI_def Let_def inv loop)
  qed
qed

lemma strain_oldstyle_run:
  assumes ref: "reference_axes = Some R \<or>
      (reference_axes = None \<and>
       plain_axes lib center_disk (disk_radius center_disk) disk_list pos_list
         (np_mean_last data) = Inr R)"
    and det: "mat_det R \<noteq> 0"
    and fits: "\<And>ii. ii < depth data \<Longrightarrow>
       plain_axes lib center_disk (disk_radius center_disk) disk_list pos_list
         (pattern_at data ii) = Inr (A ii)"
  shows "strain_oldstyle lib data center_disk disk_list pos_list reference_axes
       = Inr (map (\<lambda>ii. fst (strain_row (A ii) (mat_inverse R))) [0..<depth data],
              map (\<lambda>ii. fst (snd (strain_row (A ii) (mat_inverse R)))) [0..<depth data],
              map (\<lambda>ii. fst (snd (snd (strain_row (A ii) (mat_inverse R))))) [0..<depth data],
              map (\<lambda>ii. snd (snd (snd (strain_row (A ii) (mat_inverse R))))) [0..<depth data])"
proof -
  have inv: "np_linalg_inv R = Inr (mat_inverse R)" using det by (simp add: np_linalg_inv_def)
  note loop = strain_loop [where n = "depth data" and A = A and inverse_axes = "mat_inverse R"
      and axes_of = "\<lambda>ii. plain_axes lib center_disk (disk_radius center_disk)
         disk_list pos_list (pattern_at data ii)", OF fits]
  from ref show ?thesis
  proof
    assume "reference_axes = Some R"
    then show ?thesis by (simp add: strain_oldstyle_def Let_def inv loop)
  next
    assume "reference_axes = None \<and>
       plain_axes lib center_disk (disk_radius center_disk) disk_list pos_list
         (np_mean_last data) = Inr R"
    then show ?thesis by (simp add: strain_oldstyle_def Let_def inv loop)
  qed
qed

text \<open>
  Claim C1. In \<^verbatim>\<open>strain_in_ROI\<close> and in \<^verbatim>\<open>strain_oldstyle\<close>, with \<open>R\<close> the reference
  basis (the supplied one, or the one fitted on the mean pattern), not singular, and
  \<open>A ii\<close> (\<open>B ii\<close>) the basis fitted for pattern \<open>ii\<close>: \<open>mat_inverse R\<close> is the inverse
  of \<open>R\<close>, the function returns, and for every pattern index \<open>ii\<close>, with
  \<open>T = A ii \<cdot> inverse R\<close> and \<open>S = T - I\<close>, the emitted components are
  \<open>e_xx[ii] = -S[0,0]\<close>, \<open>e_xy[ii] = -(S[0,1] + S[1,0])\<close>,
  \<open>e_theta[ii] = S[0,1] - S[1,0]\<close> and \<open>e_yy[ii] = -S[1,1]\<close>.
\<close>

theorem strain_components:
  assumes det: "mat_det R \<noteq> 0"
  shows "np_matmul R (mat_inverse R) = np_eye2 \<and> np_matmul (mat_inverse R) R = np_eye2
    \<and> ((reference_axes = Some R \<or>
         (reference_axes = None \<and>
          edge_axes lib (fst (sobel lib center_disk)) (disk_radius center_disk) disk_list pos_list
            med_factor (np_mean_last data) = Inr R))
        \<and> (\<forall>ii<depth data.
             edge_axes lib (fst (sobel lib center_disk)) (disk_radius center_disk) disk_list
               pos_list med_factor (pattern_at data ii) = Inr (A ii))
       \<longrightarrow> (\<exists>e. strain_in_ROI lib data center_disk disk_list pos_list reference_axes med_factor
                   = Inr e
               \<and> strain_emitted (depth data) A (mat_inverse R) e))
    \<and> ((reference_axes = Some R \<or>
         (reference_axes = None \<and>
          plain_axes lib center_disk (disk_radius center_disk) disk_list pos_list
            (np_mean_last data) = Inr R))
        \<and> (\<forall>ii<depth data.
             plain_axes lib center_disk (disk_radius center_disk) disk_list pos_list
               (pattern_at data ii) = Inr (B ii))
       \<longrightarrow> (\<exists>e. strain_oldstyle lib data center_disk disk_list pos_list reference_axes = Inr e
               \<and> strain_emitted (depth data) B (mat_inverse R) e))"
proof (intro conjI impI)
  show "np_matmul R (mat_inverse R) = np_eye2" using det by (rule mat_inverse_right)
  show "np_matmul (mat_inverse R) R = np_eye2" using det by (rule mat_inverse_left)
next
  assume h: "(reference_axes = Some R \<or>
         (reference_axes = None \<and>
          edge_axes lib (fst (sobel lib center_disk)) (disk_radius center_disk) disk_list pos_list
            med_factor (np_mean_last data) = Inr R))
        \<and> (\<forall>ii<depth data.
             edge_axes lib (fst (sobel lib center_disk)) (disk_radius center_disk) disk_list
               pos_list med_factor (pattern_at data ii) = Inr (A ii))"
  then have "strain_in_ROI lib data center_disk disk_list pos_list reference_axes med_factor
       = Inr (map (\<lambda>ii. fst (strain_row (A ii) (mat_inverse R))) [0..<depth data],
              map (\<lambda>ii. fst (snd (strain_row (A ii) (mat_inverse R)))) [0..<depth data],
              map (\<lambda>ii. fst (snd (snd (strain_row (A ii) (mat_inverse R))))) [0..<depth data],
              map (\<lambda>ii. snd (snd (snd (strain_row (A ii) (mat_inverse R))))) [0..<depth data])"
    using det by (intro strain_in_ROI_run) auto
  then show "\<exists>e. strain_in_ROI lib data center_disk disk_list pos_list reference_axes med_factor
                   = Inr e
               \<and> strain_emitted (depth data) A (mat_inverse R) e"
    using strain_rows_emitted by blast
next
  assume h: "(reference_axes = Some R \<or>
         (reference_axes = None \<and>
          plain_axes lib center_disk (disk_radius center_disk) disk_list pos_list
            (np_mean_last data) = Inr R))
        \<and> (\<forall>ii<depth data.
             plain_axes lib center_disk (disk_radius center_disk) disk_list pos_list
               (pattern_at data ii) = Inr (B ii))"
  then have "strain_oldstyle lib data center_disk disk_list pos_list reference_axes
       = Inr (map (\<lambda>ii. fst (strain_row (B ii) (mat_inverse R))) [0..<depth data],
              map (\<lambda>ii. fst (snd (strain_row (B ii) (mat_inverse R)))) [0..<depth data],
              map (\<lambda>ii. fst (snd (snd (strain_row (B ii) (mat_inverse R))))) [0..<depth data],
              map (\<lambda>ii. snd (snd (snd (strain_row (B ii) (mat_inverse R))))) [0..<depth data])"
    using det by (intro strain_oldstyle_run) auto
  then show "\<exists>e. strain_oldstyle lib data center_disk disk_list pos_list reference_axes = Inr e
               \<and> strain_emitted (depth data) B (mat_inverse R) e"
    using strain_rows_emitted by blast
qed

lemma demo_fit:
  "fit_nbed_disks demo_lib img r [(10, 10), (14, 11), (9, 14)] [(0, 0), (1, 0), (0, 1)]
   = Inr ([(21 / 2, 39 / 4), (29 / 2, 43 / 4), (19 / 2, 55 / 4)], (21 / 2, 39 / 4),
          Mat2 4 (- 1) (- 1) (- 4))"
  by (simp add: fit_nbed_disks_def demo_lib_def np_lstsq_def gram_def moments_def Let_def
      mat_det_def mat_inverse_def np_matmul_def)

lemma demo_edge_axes:
  "edge_axes demo_lib edge_disk r [(10, 10), (14, 11), (9, 14)] [(0, 0), (1, 0), (0, 1)] f img
   = Inr (Mat2 4 (- 1) (- 1) (- 4))"
  by (simp add: edge_axes_def demo_fit Let_def)

lemma demo_plain_axes:
  "plain_axes demo_lib disk r [(10, 10), (14, 11), (9, 14)] [(0, 0), (1, 0), (0, 1)] img
   = Inr (Mat2 4 (- 1) (- 1) (- 4))"
  by (simp add: plain_axes_def demo_fit Let_def)

lemma strain_emitted_first:
  assumes "strain_emitted n (\<lambda>ii. Mat2 4 (- 1) (- 1) (- 4)) (mat_inverse (Mat2 2 0 0 2)) e"
    and "0 < n"
  shows "fst e ! 0 = - 1 \<and> fst (snd e) ! 0 = 1 \<and> fst (snd (snd e)) ! 0 = 0
       \<and> snd (snd (snd e)) ! 0 = 3"
  using assms
  by (cases e) (auto simp: strain_emitted_def Let_def np_matmul_def mat_sub_def np_eye2_def
      mat_inverse_def mat_det_def)

theorem strain_components_witness:
  "(\<exists>e. strain_in_ROI demo_lib demo_stack [[0, 1], [1, 1]] [(10, 10), (14, 11), (9, 14)]
          [(0, 0), (1, 0), (0, 1)] (Some (Mat2 2 0 0 2)) 10 = Inr e
        \<and> fst e ! 0 = - 1 \<and> fst (snd e) ! 0 = 1 \<and> fst (snd (snd e)) ! 0 = 0
        \<and> snd (snd (snd e)) ! 0 = 3)
 \<and> (\<exists>e. strain_oldstyle demo_lib demo_stack [[0, 1], [1, 1]] [(10, 10), (14, 11), (9, 14)]
          [(0, 0), (1, 0), (0, 1)] (Some (Mat2 2 0 0 2)) = Inr e
        \<and> fst e ! 0 = - 1 \<and> fst (snd e) ! 0 = 1 \<and> fst (snd (snd e)) ! 0 = 0
        \<and> snd (snd (snd e)) ! 0 = 3)"
proof -
  have det: "mat_det (Mat2 2 0 0 2) \<noteq> 0" by (simp add: mat_det_def)
  have n: "0 < depth demo_stack" by (simp add: demo_stack_def)
  note t = strain_components [OF det, where reference_axes = "Some (Mat2 2 0 0 2)"
      and lib = demo_lib and center_disk = "[[0, 1], [1, 1]]"
      and disk_list = "[(10, 10), (14, 11), (9, 14)]" and pos_list = "[(0, 0), (1, 0), (0, 1)]"
      and med_factor = 10 and data = demo_stack
      and A = "\<lambda>ii. Mat2 4 (- 1) (- 1) (- 4)" and B = "\<lambda>ii. Mat2 4 (- 1) (- 1) (- 4)"]
  from t obtain e where e: "strain_in_ROI demo_lib demo_stack [[0, 1], [1, 1]]
        [(10, 10), (14, 11), (9, 14)] [(0, 0), (1, 0), (0, 1)] (Some (Mat2 2 0 0 2)) 10 = Inr e"
      "strain_emitted (depth demo_stack) (\<lambda>ii. Mat2 4 (- 1) (- 1) (- 4))
         (mat_inverse (Mat2 2 0 0 2)) e"
    by (auto simp: demo_edge_axes)
  from t obtain e' where e': "strain_oldstyle demo_lib demo_stack [[0, 1], [1, 1]]
        [(10, 10), (14, 11), (9, 14)] [(0, 0), (1, 0), (0, 1)] (Some (Mat2 2 0 0 2)) = Inr e'"
      "strain_emitted (depth demo_stack) (\<lambda>ii. Mat2 4 (- 1) (- 1) (- 4))
         (mat_inverse (Mat2 2 0 0 2)) e'"
    by (auto simp: demo_plain_axes)
  from e strain_emitted_first [OF e(2) n] e' strain_emitted_first [OF e'(2) n]
  show ?thesis by blast
qed

section \<open>Equal patterns, and the pipeline without preprocessing\<close>

lemma constant_vector_mean:
  fixes v :: "real list"
  assumes "0 < length v" and "\<And>i. i < length v \<Longrightarrow> v ! i = c"
  shows "sum_list v / real (length v) = c"
proof -
  have "v = replicate (length v) c"
    using assms(2) by (intro nth_equalityI) auto
  then have "sum_list v = real (length v) * c"
    by (metis sum_list_replicate)
  then show ?thesis using assms(1) by simp
qed

lemma mean_of_equal_patterns:
  assumes wf: "\<forall>row\<in>set (pixels data). \<forall>v\<in>set row. length v = depth data"
    and pos: "0 < depth data"
    and same: "\<forall>ii<depth data. pattern_at data ii = p"
  shows "np_mean_last data = p"
proof -
  have p0: "pattern_at data 0 = p" using same pos by simp
  have "sum_list v / real (length v) = v ! 0"
    if "row \<in> set (pixels data)" "v \<in> set row" for row v
  proof (rule constant_vector_mean)
    show "0 < length v" using wf that pos by simp
  next
    fix i assume "i < length v"
    then have "i < depth data" using wf that by simp
    then have "pattern_at data i = pattern_at data 0" using same p0 by simp
    then show "v ! i = v ! 0"
      using that by (simp add: pattern_at_def)
  qed
  then have "np_mean_last data = pattern_at data 0"
    by (simp add: np_mean_last_def pattern_at_def)
  with p0 show ?thesis by simp
qed

lemma strain_row_identity:
  "mat_det R \<noteq> 0 \<Longrightarrow> strain_row R (mat_inverse R) = (0, 0, 0, 0)"
  by (simp add: strain_row_def mat_inverse_right mat_sub_def np_eye2_def)

text \<open>
  Claim C4. For a stack in which every pattern is the same image \<open>p\<close>, with the
  reference basis the one fitted on the mean pattern (which is \<open>p\<close> when the stack has
  at least one pattern), or a supplied basis equal to the one fitted on \<open>p\<close>, and that
  basis not singular: \<^verbatim>\<open>strain_in_ROI\<close> returns four arrays that are zero at every
  pixel.
\<close>

theorem strain_same_pattern_zero:
  assumes same: "\<forall>ii<depth data. pattern_at data ii = p"
    and fit: "edge_axes lib (fst (sobel lib center_disk)) (disk_radius center_disk) disk_list
                pos_list med_factor p = Inr R"
    and det: "mat_det R \<noteq> 0"
    and ref: "reference_axes = Some R \<or>
        (reference_axes = None \<and> 0 < depth data
         \<and> (\<forall>row\<in>set (pixels data). \<forall>v\<in>set row. length v = depth data))"
  shows "strain_in_ROI lib data center_disk disk_list pos_list reference_axes med_factor
       = Inr (replicate (depth data) 0, replicate (depth data) 0,
              replicate (depth data) 0, replicate (depth data) 0)"
proof -
  have r: "reference_axes = Some R \<or>
      (reference_axes = None \<and>
       edge_axes lib (fst (sobel lib center_disk)) (disk_radius center_disk) disk_list pos_list
         med_factor (np_mean_last data) = Inr R)"
  proof (rule disjE [OF ref])
    assume "reference_axes = Some R"
    then show ?thesis by simp
  next
    assume a: "reference_axes = None \<and> 0 < depth data
         \<and> (\<forall>row\<in>set (pixels data). \<forall>v\<in>set row. length v = depth data)"
    then have "np_mean_last data = p"
      using same by (intro mean_of_equal_patterns) auto
    with a fit show ?thesis by simp
  qed
  have fits: "edge_axes lib (fst (sobel lib center_disk)) (disk_radius center_disk) disk_list
         pos_list med_factor (pattern_at data ii) = Inr R" if "ii < depth data" for ii
    using same that fit by simp
  have z: "map (\<lambda>ii. 0::real) [0..<depth data] = replicate (depth data) 0"
    by (simp add: map_replicate_const)
  show ?thesis
    using strain_in_ROI_run [OF r det fits] by (simp add: strain_row_identity [OF det] z)
qed

text \<open>
  The clamp is a stage of its own: at the default \<^verbatim>\<open>med_factor=10\<close> it changes an image
  with one bright pixel.
\<close>

lemma clamp_outliers_acts: "clamp_outliers 10 [[1, 1], [1, 50]] = [[1, 1], [1, 1]]"
  by (simp add: clamp_outliers_def np_median_def Let_def)

lemma staged_edge:
  "located_axes (image_logarizer lib) (\<lambda>img. fst (sobel lib img)) (clamp_outliers med_factor)
     lib center_disk disk_list pos_list pattern
   = edge_axes lib (fst (sobel lib center_disk)) (disk_radius center_disk) disk_list pos_list
       med_factor pattern"
  by (simp add: located_axes_def edge_axes_def disk_radius_def Let_def)

lemma staged_plain:
  "located_axes (\<lambda>img. img) (\<lambda>img. img) (\<lambda>img. img) lib center_disk disk_list pos_list pattern
   = plain_axes lib center_disk (disk_radius center_disk) disk_list pos_list pattern"
  by (simp add: located_axes_def plain_axes_def disk_radius_def Let_def)

text \<open>
  Claim C5. \<^verbatim>\<open>strain_oldstyle\<close> is \<^verbatim>\<open>strain_in_ROI\<close> without the preprocessing. For
  every input, \<^verbatim>\<open>strain_in_ROI\<close> is the staged extractor whose three stages are the
  logarithm scaling, the edge detection (of the patterns and of the centre disk) and the
  clamp at \<^verbatim>\<open>med_factor\<close>; and the staged extractor with all three stages replaced by the
  identity returns what \<^verbatim>\<open>strain_oldstyle\<close> returns, or raises as it does.
\<close>

theorem strain_oldstyle_refines:
  "strain_in_ROI lib data center_disk disk_list pos_list reference_axes med_factor
   = strain_staged (image_logarizer lib) (\<lambda>img. fst (sobel lib img))
       (clamp_outliers med_factor) lib data center_disk disk_list pos_list reference_axes
   \<and> strain_staged (\<lambda>img. img) (\<lambda>img. img) (\<lambda>img. img) lib data center_disk disk_list pos_list
       reference_axes
   = strain_oldstyle lib data center_disk disk_list pos_list reference_axes"
proof
  show "strain_in_ROI lib data center_disk disk_list pos_list reference_axes med_factor
      = strain_staged (image_logarizer lib) (\<lambda>img. fst (sobel lib img))
          (clamp_outliers med_factor) lib data center_disk disk_list pos_list reference_axes"
    unfolding strain_in_ROI_def strain_staged_def Let_def staged_edge
    by (simp split: option.splits sum.splits)
  show "strain_staged (\<lambda>img. img) (\<lambda>img. img) (\<lambda>img. img) lib data center_disk disk_list
          pos_list reference_axes
      = strain_oldstyle lib data center_disk disk_list pos_list reference_axes"
    unfolding strain_oldstyle_def strain_staged_def Let_def staged_plain
    by (simp split: option.splits sum.splits)
qed

lemma demo_same_stack_indices: "ii < depth demo_same_stack \<Longrightarrow> ii = 0 \<or> ii = 1"
  by (auto simp: demo_same_stack_def)

lemma demo_same_stack_patterns:
  "pattern_at demo_same_stack 0 = [[1, 2], [0, 5]]"
  "pattern_at demo_same_stack 1 = [[1, 2], [0, 5]]"
  by (simp_all add: pattern_at_def demo_same_stack_def)

theorem strain_same_pattern_zero_witness:
  "strain_in_ROI demo_lib demo_same_stack [[0, 1], [1, 1]] [(10, 10), (14, 11), (9, 14)]
     [(0, 0), (1, 0), (0, 1)] None 10
   = Inr ([0, 0], [0, 0], [0, 0], [0, 0])"
proof -
  have wf: "\<forall>row\<in>set (pixels demo_same_stack). \<forall>v\<in>set row. length v = depth demo_same_stack"
    by (simp add: demo_same_stack_def)
  have pos: "0 < depth demo_same_stack" by (simp add: demo_same_stack_def)
  have same: "\<forall>ii<depth demo_same_stack. pattern_at demo_same_stack ii = [[1, 2], [0, 5]]"
    using demo_same_stack_indices demo_same_stack_patterns by blast
  have det: "mat_det (Mat2 4 (- 1) (- 1) (- 4)) \<noteq> 0" by (simp add: mat_det_def)
  have ref: "(None :: mat2 option) = Some (Mat2 4 (- 1) (- 1) (- 4)) \<or>
      ((None :: mat2 option) = None \<and> 0 < depth demo_same_stack
       \<and> (\<forall>row\<in>set (pixels demo_same_stack). \<forall>v\<in>set row. length v = depth demo_same_stack))"
    using wf pos by simp
  have d: "replicate (depth demo_same_stack) (0::real) = [0, 0]"
    by (simp add: demo_same_stack_def numeral_2_eq_2)
  show ?thesis
    using strain_same_pattern_zero [OF same demo_edge_axes det ref]
    by (simp only: d)
qed

section \<open>The objective of the rotation finder\<close>

lemma np_amin_least:
  assumes "xs \<noteq> []"
  shows "np_amin xs = Inr (Min (set xs))"
proof -
  obtain x ys where xs: "xs = x # ys" using assms by (cases xs) auto
  have "fold min ys x = Min (set (x # ys))" by (rule Min.set_eq_fold [symmetric])
  then show ?thesis by (simp add: np_amin_def xs)
qed

lemma min_negated:
  fixes A :: "real set"
  assumes "finite A" and "A \<noteq> {}"
  shows "Min (uminus ` A) = - Max A"
proof (rule Min_eqI)
  show "finite (uminus ` A)" using assms(1) by simp
  show "- Max A \<in> uminus ` A" using assms by (simp add: Max_in)
  fix y assume "y \<in> uminus ` A"
  then obtain x where "x \<in> A" "y = - x" by auto
  then show "- Max A \<le> y" using assms(1) by simp
qed

lemma angle_fun_value:
  assumes "nd_rotate image_orig angle \<noteq> []"
  shows "angle_fun nd_rotate angle image_orig axis = Inr (- largest_row_sum (nd_rotate image_orig angle))"
proof -
  let ?img = "nd_rotate image_orig angle"
  have ne: "map (\<lambda>row. (- 1) * sum_list row) ?img \<noteq> []" using assms by simp
  have "set (map (\<lambda>row. (- 1) * sum_list row) ?img) = uminus ` set (map sum_list ?img)"
    by (auto simp: image_iff)
  moreover have "Min (uminus ` set (map sum_list ?img)) = - Max (set (map sum_list ?img))"
    using assms by (intro min_negated) auto
  ultimately show ?thesis
    using np_amin_least [OF ne] by (simp add: angle_fun_def Let_def largest_row_sum_def)
qed

text \<open>
  Claim C6, amended. For an image that has rows at every angle, the scalar objective of
  \<^verbatim>\<open>rotation_finder\<close> at a trial angle is the least of the negated row sums of the
  rotated image, that is the negative of its largest row sum (not of its summed
  intensity); \<^verbatim>\<open>rotation_finder\<close> returns what the minimizer returns for this objective
  from the initial guess 90; and when the returned angle is a global minimum of the
  objective, it maximises the largest row sum of the rotated image.
\<close>

theorem rotation_objective:
  assumes rows: "\<forall>angle. nd_rotate image_orig angle \<noteq> []"
  shows "angle_fun nd_rotate angle image_orig axis = Inr (- largest_row_sum (nd_rotate image_orig angle))
    \<and> rotation_finder minimize nd_rotate image_orig axis
        = minimize (\<lambda>angle. Inr (- largest_row_sum (nd_rotate image_orig angle))) 90
    \<and> (rotation_finder minimize nd_rotate image_orig axis = Inr best
        \<and> (\<forall>a v w. angle_fun nd_rotate best image_orig 0 = Inr v
                    \<and> angle_fun nd_rotate a image_orig 0 = Inr w \<longrightarrow> v \<le> w)
       \<longrightarrow> (\<forall>a. largest_row_sum (nd_rotate image_orig a) \<le> largest_row_sum (nd_rotate image_orig best)))"
proof -
  have v: "angle_fun nd_rotate a image_orig ax = Inr (- largest_row_sum (nd_rotate image_orig a))" for a ax
    using rows by (intro angle_fun_value) simp
  have "largest_row_sum (nd_rotate image_orig a) \<le> largest_row_sum (nd_rotate image_orig best)"
    if "\<forall>a v w. angle_fun nd_rotate best image_orig 0 = Inr v
                    \<and> angle_fun nd_rotate a image_orig 0 = Inr w \<longrightarrow> v \<le> w" for a
  proof -
    from that v [of best 0] v [of a 0]
    have "- largest_row_sum (nd_rotate image_orig best) \<le> - largest_row_sum (nd_rotate image_orig a)"
      by blast
    then show ?thesis by simp
  qed
  then show ?thesis
    by (simp add: v rotation_finder_def Let_def)
qed

text \<open>
  The claim as worded fails: for the image with rows (1, 2) and (3, 4), rotated by 0
  degrees, the objective is -7, the negative of the largest row sum, and not -10, the
  negative of the summed intensity.
\<close>

theorem rotation_objective_counterexample:
  "angle_fun quarter_turn 0 [[1, 2], [3, 4]] 0
   \<noteq> Inr (- summed_intensity (quarter_turn [[1, 2], [3, 4]] 0))"
  by (simp add: angle_fun_def np_amin_def quarter_turn_def summed_intensity_def Let_def)

lemma quarter_turn_rows:
  "largest_row_sum (quarter_turn [[1, 2], [3, 4]] a) = (if a = 90 then 6 else 7)"
  "quarter_turn [[1, 2], [3, 4]] a \<noteq> []"
  by (simp_all add: largest_row_sum_def quarter_turn_def)

theorem rotation_objective_witness:
  "angle_fun quarter_turn 90 [[1, 2], [3, 4]] 0 = Inr (- 6)
 \<and> rotation_finder two_point_minimize quarter_turn [[1, 2], [3, 4]] 0 = Inr 0
 \<and> largest_row_sum (quarter_turn [[1, 2], [3, 4]] 90)
     \<le> largest_row_sum (quarter_turn [[1, 2], [3, 4]] 0)"
proof -
  have rows: "\<forall>angle. quarter_turn [[1, 2], [3, 4]] angle \<noteq> []"
    by (simp add: quarter_turn_rows)
  note t = rotation_objective [where nd_rotate = quarter_turn
      and image_orig = "[[1, 2], [3, 4]]" and angle = 90 and axis = 0
      and minimize = two_point_minimize and best = 0, OF rows]
  from t have a: "angle_fun quarter_turn 90 [[1, 2], [3, 4]] 0 = Inr (- 6)"
    by (simp add: quarter_turn_rows)
  from t have b: "rotation_finder two_point_minimize quarter_turn [[1, 2], [3, 4]] 0 = Inr 0"
    by (simp add: quarter_turn_rows two_point_minimize_def)
  have "angle_fun quarter_turn a [[1, 2], [3, 4]] 0 = Inr (if a = 90 then - 6 else - 7)" for a
    using angle_fun_value [of quarter_turn "[[1, 2], [3, 4]]" a 0]
    by (simp add: quarter_turn_rows)
  then have c: "\<forall>a v w. angle_fun quarter_turn 0 [[1, 2], [3, 4]] 0 = Inr v
                    \<and> angle_fun quarter_turn a [[1, 2], [3, 4]] 0 = Inr w \<longrightarrow> v \<le> w"
    by auto
  from t b c have "\<forall>a. largest_row_sum (quarter_turn [[1, 2], [3, 4]] a)
              \<le> largest_row_sum (quarter_turn [[1, 2], [3, 4]] 0)"
    by blast
  with a b show ?thesis by blast
qed

section \<open>Binning by the factor one\<close>

lemma np_round_nat: "np_round (real n) = int n"
  by (simp add: np_round_def)

lemma length_row_of: "length (row_of a yy) = ncols a"
  by (simp add: row_of_def)

lemma length_col_of: "length (col_of a xx) = nrows a"
  by (simp add: col_of_def)

lemma resizer_row: "resizer (row_of a yy) (int (ncols a)) = Inr (row_of a yy)"
  using resizer_identity [of "row_of a yy"] by (simp add: row_of_def)

lemma resizer_col: "resizer (col_of a xx) (int (nrows a)) = Inr (col_of a xx)"
  using resizer_identity [of "col_of a xx"] by (simp add: col_of_def)

lemma copy_row_step:
  assumes "k < nrows data" and "rows_copied data k a"
  shows "\<exists>a'. (case resizer (row_of data k) (int (ncols data)) of
                 Inl e \<Rightarrow> Inl e
               | Inr r \<Rightarrow> set_row a k r) = Inr a' \<and> rows_copied data (Suc k) a'"
proof -
  let ?a' = "a\<lparr>at2 := (\<lambda>i j. if i = k \<and> j < ncols a then row_of data k ! j else at2 a i j)\<rparr>"
  have c: "ncols a = ncols data" and r: "nrows a = nrows data"
    and old: "\<And>i j. i < k \<Longrightarrow> j < ncols data \<Longrightarrow> at2 a i j = at2 data i j"
    using assms(2) by (auto simp: rows_copied_def)
  have s: "set_row a k (row_of data k) = Inr ?a'"
    by (simp add: set_row_def length_row_of c)
  have "rows_copied data (Suc k) ?a'"
    unfolding rows_copied_def using c r old
    by (auto simp: row_of_def less_Suc_eq)
  then show ?thesis by (simp add: resizer_row s)
qed

lemma copy_col_step:
  assumes "k < ncols data" and "cols_copied data k a"
  shows "\<exists>a'. (case resizer (col_of data k) (int (nrows data)) of
                 Inl e \<Rightarrow> Inl e
               | Inr c \<Rightarrow> set_col a k c) = Inr a' \<and> cols_copied data (Suc k) a'"
proof -
  let ?a' = "a\<lparr>at2 := (\<lambda>i j. if j = k \<and> i < nrows a then col_of data k ! i else at2 a i j)\<rparr>"
  have c: "ncols a = ncols data" and r: "nrows a = nrows data"
    and old: "\<And>i j. j < k \<Longrightarrow> i < nrows data \<Longrightarrow> at2 a i j = at2 data i j"
    using assms(2) by (auto simp: cols_copied_def)
  have s: "set_col a k (col_of data k) = Inr ?a'"
    by (simp add: set_col_def length_col_of r)
  have "cols_copied data (Suc k) ?a'"
    unfolding cols_copied_def using c r old
    by (auto simp: col_of_def less_Suc_eq)
  then show ?thesis by (simp add: resizer_col s)
qed

lemma resizer2D_identity:
  "\<exists>out. resizer2D data (1, 1) = Inr out \<and> nrows out = nrows data \<and> ncols out = ncols data
     \<and> (\<forall>i j. i < nrows data \<and> j < ncols data \<longrightarrow> at2 out i j = at2 data i j)"
proof -
  let ?R = "nrows data" and ?C = "ncols data"
  have init1: "rows_copied data 0 (np_zeros2 ?R ?C)"
    by (simp add: rows_copied_def np_zeros2_def)
  from for_range_invariant [where P = "rows_copied data"
      and body = "\<lambda>yy resampled_x. case resizer (row_of data yy) (int ?C) of
                           Inl e \<Rightarrow> Inl e
                         | Inr r \<Rightarrow> set_row resampled_x yy r", OF init1 le0]
  obtain rx where run1: "for_range 0 ?R
        (\<lambda>yy resampled_x. case resizer (row_of data yy) (int ?C) of
                           Inl e \<Rightarrow> Inl e
                         | Inr r \<Rightarrow> set_row resampled_x yy r) (np_zeros2 ?R ?C) = Inr rx"
    and fin1: "rows_copied data ?R rx"
    using copy_row_step by blast
  have rxr: "nrows rx = ?R" and rxc: "ncols rx = ?C"
    and rxv: "\<And>i j. i < ?R \<Longrightarrow> j < ?C \<Longrightarrow> at2 rx i j = at2 data i j"
    using fin1 by (auto simp: rows_copied_def)
  have init2: "cols_copied rx 0 (np_zeros2 ?R ?C)"
    by (simp add: cols_copied_def np_zeros2_def rxr rxc)
  have step2: "\<exists>a'. (case resizer (col_of rx k) (int ?R) of
                 Inl e \<Rightarrow> Inl e
               | Inr c \<Rightarrow> set_col a k c) = Inr a' \<and> cols_copied rx (Suc k) a'"
    if "0 \<le> k" "k < ?C" "cols_copied rx k a" for k a
    using copy_col_step [of k rx a] that by (simp add: rxr rxc)
  from for_range_invariant [where P = "cols_copied rx"
      and body = "\<lambda>xx resampled. case resizer (col_of rx xx) (int ?R) of
                          Inl e \<Rightarrow> Inl e
                        | Inr c \<Rightarrow> set_col resampled xx c", OF init2 le0 step2]
  obtain out where run2: "for_range 0 ?C
        (\<lambda>xx resampled. case resizer (col_of rx xx) (int ?R) of
                          Inl e \<Rightarrow> Inl e
                        | Inr c \<Rightarrow> set_col resampled xx c) (np_zeros2 ?R ?C) = Inr out"
    and fin2: "cols_copied rx ?C out"
    by blast
  have "resizer2D data (1, 1) = Inr out"
    by (simp add: resizer2D_def Let_def np_round_nat run1 run2)
  moreover have "nrows out = ?R" "ncols out = ?C"
    using fin2 by (auto simp: cols_copied_def rxr rxc)
  moreover have "at2 out i j = at2 data i j" if "i < ?R" "j < ?C" for i j
  proof -
    have "at2 out i j = at2 rx i j" using fin2 that by (auto simp: cols_copied_def rxr rxc)
    with rxv [OF that] show ?thesis by simp
  qed
  ultimately show ?thesis by blast
qed

lemma copy_plane_step:
  assumes "planes_copied data ii jj a"
  shows "\<exists>a'. (case resizer2D (plane_of data ii jj) (1, 1) of
                 Inl e \<Rightarrow> Inl e
               | Inr p \<Rightarrow> set_plane a ii jj p) = Inr a' \<and> planes_copied data ii (Suc jj) a'"
proof -
  from resizer2D_identity [of "plane_of data ii jj"]
  obtain p where p: "resizer2D (plane_of data ii jj) (1, 1) = Inr p"
    and pr: "nrows p = dim0 data" and pc: "ncols p = dim1 data"
    and pv: "\<And>i j. i < dim0 data \<Longrightarrow> j < dim1 data \<Longrightarrow> at2 p i j = at4 data i j ii jj"
    by (auto simp: plane_of_def)
  have d: "dim0 a = dim0 data" "dim1 a = dim1 data" "dim2 a = dim2 data" "dim3 a = dim3 data"
    and old: "\<And>i j k l. i < dim0 data \<Longrightarrow> j < dim1 data \<Longrightarrow> l < dim3 data
                \<Longrightarrow> k < ii \<or> (k = ii \<and> l < jj) \<Longrightarrow> at4 a i j k l = at4 data i j k l"
    using assms by (auto simp: planes_copied_def)
  let ?a' = "a\<lparr>at4 := (\<lambda>i j k l. if k = ii \<and> l = jj \<and> i < dim0 a \<and> j < dim1 a
                                      then at2 p i j else at4 a i j k l)\<rparr>"
  have s: "set_plane a ii jj p = Inr ?a'"
    by (simp add: set_plane_def pr pc d)
  have "at4 ?a' i j k l = at4 data i j k l"
    if "i < dim0 data" "j < dim1 data" "l < dim3 data" "k < ii \<or> (k = ii \<and> l < Suc jj)"
    for i j k l
  proof (cases "k = ii \<and> l = jj")
    case True
    then show ?thesis using that pv d by simp
  next
    case False
    then have "k < ii \<or> (k = ii \<and> l < jj)" using that(4) by auto
    then show ?thesis using False old that by auto
  qed
  then have "planes_copied data ii (Suc jj) ?a'"
    unfolding planes_copied_def using d by simp
  then show ?thesis by (simp add: p s)
qed

lemma copy_planes_row:
  assumes "planes_copied data ii 0 a"
  shows "\<exists>a'. for_range 0 (dim3 data)
                 (\<lambda>jj binned_data.
                    case resizer2D (plane_of data ii jj) (1, 1) of
                      Inl e \<Rightarrow> Inl e
                    | Inr p \<Rightarrow> set_plane binned_data ii jj p) a = Inr a'
              \<and> planes_copied data (Suc ii) 0 a'"
proof -
  from for_range_invariant [where P = "planes_copied data ii"
      and body = "\<lambda>jj binned_data.
                    case resizer2D (plane_of data ii jj) (1, 1) of
                      Inl e \<Rightarrow> Inl e
                    | Inr p \<Rightarrow> set_plane binned_data ii jj p", OF assms le0]
  obtain a' where run: "for_range 0 (dim3 data)
                 (\<lambda>jj binned_data.
                    case resizer2D (plane_of data ii jj) (1, 1) of
                      Inl e \<Rightarrow> Inl e
                    | Inr p \<Rightarrow> set_plane binned_data ii jj p) a = Inr a'"
    and fin: "planes_copied data ii (dim3 data) a'"
    using copy_plane_step by blast
  have "planes_copied data (Suc ii) 0 a'"
    using fin unfolding planes_copied_def by (auto simp: less_Suc_eq)
  with run show ?thesis by blast
qed

text \<open>
  Claim C7. For every four-dimensional data set, \<^verbatim>\<open>bin4D\<close> with \<^verbatim>\<open>bin_factor = 1\<close>
  returns an array of the same shape with the same value at every index.
\<close>

theorem bin4D_identity:
  "\<exists>binned. bin4D data4D 1 = Inr binned
     \<and> dim0 binned = dim0 data4D \<and> dim1 binned = dim1 data4D
     \<and> dim2 binned = dim2 data4D \<and> dim3 binned = dim3 data4D
     \<and> (\<forall>i j k l. i < dim0 data4D \<and> j < dim1 data4D \<and> k < dim2 data4D \<and> l < dim3 data4D
           \<longrightarrow> at4 binned i j k l = at4 data4D i j k l)"
proof -
  from resizer2D_identity [of "np_mean_planes data4D"]
  obtain mb where mb: "resizer2D (np_mean_planes data4D) (1, 1) = Inr mb"
    and mr: "nrows mb = dim0 data4D" and mc: "ncols mb = dim1 data4D"
    by (auto simp: np_mean_planes_def)
  let ?z = "np_zeros4 (dim0 data4D) (dim1 data4D) (dim2 data4D) (dim3 data4D)"
  have init: "planes_copied data4D 0 0 ?z"
    by (simp add: planes_copied_def np_zeros4_def)
  have step: "\<exists>a'. for_range 0 (dim3 data4D)
                 (\<lambda>jj binned_data.
                    case resizer2D (plane_of data4D ii jj) (1, 1) of
                      Inl e \<Rightarrow> Inl e
                    | Inr p \<Rightarrow> set_plane binned_data ii jj p) a = Inr a'
              \<and> planes_copied data4D (Suc ii) 0 a'"
    if "0 \<le> ii" "ii < dim2 data4D" "planes_copied data4D ii 0 a" for ii a
    using that(3) by (rule copy_planes_row)
  from for_range_invariant [where P = "\<lambda>ii. planes_copied data4D ii 0"
      and body = "\<lambda>ii binned_data. for_range 0 (dim3 data4D)
                 (\<lambda>jj binned_data.
                    case resizer2D (plane_of data4D ii jj) (1, 1) of
                      Inl e \<Rightarrow> Inl e
                    | Inr p \<Rightarrow> set_plane binned_data ii jj p) binned_data", OF init le0 step]
  obtain binned where run: "for_range 0 (dim2 data4D)
       (\<lambda>ii binned_data. for_range 0 (dim3 data4D)
                 (\<lambda>jj binned_data.
                    case resizer2D (plane_of data4D ii jj) (1, 1) of
                      Inl e \<Rightarrow> Inl e
                    | Inr p \<Rightarrow> set_plane binned_data ii jj p) binned_data) ?z = Inr binned"
    and fin: "planes_copied data4D (dim2 data4D) 0 binned"
    by blast
  have "bin4D data4D 1 = Inr binned"
    by (simp add: bin4D_def Let_def mb mr mc run)
  with fin show ?thesis
    unfolding planes_copied_def by auto
qed

theorem bin4D_identity_witness:
  "\<exists>binned. bin4D demo_data4 1 = Inr binned
     \<and> dim0 binned = 2 \<and> dim1 binned = 2 \<and> dim2 binned = 1 \<and> dim3 binned = 2
     \<and> at4 binned 1 0 0 1 = 5"
proof -
  from bin4D_identity [of demo_data4]
  obtain binned where r: "bin4D demo_data4 1 = Inr binned"
    and d: "dim0 binned = dim0 demo_data4" "dim1 binned = dim1 demo_data4"
      "dim2 binned = dim2 demo_data4" "dim3 binned = dim3 demo_data4"
    and v: "\<forall>i j k l. i < dim0 demo_data4 \<and> j < dim1 demo_data4 \<and> k < dim2 demo_data4
              \<and> l < dim3 demo_data4 \<longrightarrow> at4 binned i j k l = at4 demo_data4 i j k l"
    by blast
  have "(1::nat) < dim0 demo_data4 \<and> (0::nat) < dim1 demo_data4 \<and> (0::nat) < dim2 demo_data4
      \<and> (1::nat) < dim3 demo_data4"
    by (simp add: demo_data4_def)
  with v have "at4 binned 1 0 0 1 = at4 demo_data4 1 0 0 1" by blast
  then have "at4 binned 1 0 0 1 = 5" by (simp add: demo_data4_def)
  with r d show ?thesis by (simp add: demo_data4_def)
qed

end
